theory Spec2Isabelle
  imports Complex_Main
begin

section \<open>The lottery experiment of streamlit\_app.py\<close>

text \<open>
  The program runs a sequence of 50/50 mixed gambles in three phases and keeps a log of the
  decisions. This theory embeds its lottery model, its flagging and adaptation rules and its
  session bookkeeping, function by function and under the names of the source.

  Numbers. The amounts and probabilities of the source are Python floats. Every float the
  program computes with is a small dyadic rational (the probability 0.5, an integer amount
  of at most 30, a product and a difference of such), on which IEEE arithmetic is exact,
  so the fields are rationals here. The quotient \<open>la / n\<close> of \<open>adapt_difficulty\<close> is a
  correctly rounded float compared with the float literals 0.6 and 0.2; as rounding is
  monotone and the literals are the roundings of 3/5 and 1/5, the comparison agrees with
  the one on the exact quotient for every list of fewer than \<open>2 ^ 50\<close> flags (the program
  keeps at most 10), and the model compares the exact quotient.
  Python's \<open>int\<close> is unbounded: tiers, indices and seeds are of type \<open>int\<close>.
\<close>

subsection \<open>Errors and the randomness source\<close>

datatype error = IndexError

text \<open>
  \<open>random.Random\<close> belongs to the standard library. What the program uses of it is
  \<open>choice(seq)\<close>, which raises \<open>IndexError\<close> on an empty sequence and otherwise returns
  \<open>seq[i]\<close> for an index \<open>0 \<le> i < len(seq)\<close> taken from the generator, whose state moves
  on. A generator is modelled by the sequence of its raw draws; the index is the draw
  reduced below the length, so that every index a generator can produce is the result of
  some sequence.
\<close>

type_synonym rng = "nat \<Rightarrow> nat"

definition choice :: "rng \<Rightarrow> 'a list \<Rightarrow> error + ('a \<times> rng)" where
  "choice r xs =
     (if xs = [] then Inl IndexError
      else Inr (xs ! (r 0 mod length xs), \<lambda>k. r (Suc k)))"

subsection \<open>Lottery model\<close>

record MixedGamble =
  p_win :: rat
  win :: rat
  p_lose :: rat
  lose :: rat
  gamble_id :: string

definition ev :: "MixedGamble \<Rightarrow> rat" where
  "ev g = p_win g * win g - p_lose g * lose g"

text \<open>
  \<open>sample_mixed_gamble(difficulty, rng)\<close>. The three branches on the difficulty fix the two
  lists the amounts are chosen from (\<open>candidates\<close>); the win amount is chosen first, the
  loss amount second, and both are converted to floats. The identifier is \<open>str(uuid.uuid4())[:8]\<close>:
  \<open>uuid4\<close> reads the entropy of the operating system, not \<open>rng\<close>, so the string it returns
  is an input \<open>u\<close> of the model.
\<close>

definition candidates :: "int \<Rightarrow> int list \<times> int list" where
  "candidates difficulty =
     (if difficulty \<le> 0 then ([6, 8, 10, 12, 14, 16], [4, 6, 8, 10, 12])
      else if difficulty = 1 then ([10, 12, 14, 16, 18, 20, 22], [8, 10, 12, 14, 16, 18])
      else ([16, 18, 20, 22, 24, 26, 28, 30], [12, 14, 16, 18, 20, 22, 24]))"

definition sample_mixed_gamble :: "int \<Rightarrow> rng \<Rightarrow> string \<Rightarrow> error + MixedGamble" where
  "sample_mixed_gamble difficulty r u =
     (let p = 1 / 2;
          (wins, loses) = candidates difficulty
      in case choice r wins of
           Inl e \<Rightarrow> Inl e
         | Inr (w, r1) \<Rightarrow>
             (case choice r1 loses of
                Inl e \<Rightarrow> Inl e
              | Inr (l, r2) \<Rightarrow>
                  Inr \<lparr>p_win = p, win = of_int w, p_lose = p, lose = of_int l,
                       gamble_id = take 8 u\<rparr>))"

subsection \<open>Rules and training logic\<close>

definition simple_loss_aversion_flag :: "MixedGamble \<Rightarrow> string \<Rightarrow> string" where
  "simple_loss_aversion_flag gamble decision =
     (if ev gamble \<ge> 2 \<and> decision = ''reject'' then ''loss_aversion_possible''
      else if ev gamble \<le> - 2 \<and> decision = ''accept'' then ''risk_seeking_or_noise''
      else ''none'')"

definition adapt_difficulty :: "int \<Rightarrow> string list \<Rightarrow> int" where
  "adapt_difficulty current recent_flags =
     (if recent_flags = [] then current
      else
        let la = sum_list (map (\<lambda>f. 1) (filter (\<lambda>f. f = ''loss_aversion_possible'') recent_flags)) :: int;
            n = int (length recent_flags)
        in if rat_of_int la / rat_of_int n \<ge> 6 / 10 then max 0 (current - 1)
           else if rat_of_int la / rat_of_int n \<le> 2 / 10 then min 2 (current + 1)
           else current)"

subsection \<open>Configuration and session state\<close>

definition N_PRE :: int where "N_PRE = 40"
definition N_TRAIN :: int where "N_TRAIN = 25"
definition N_POST :: int where "N_POST = 40"

text \<open>A row of the log: the dictionary built by \<open>log_decision\<close>, key by key.\<close>

record row =
  r_participant_id :: string
  r_timestamp :: string
  r_phase :: string
  r_trial_in_phase :: int
  r_gamble_id :: string
  r_p_win :: rat
  r_win :: rat
  r_p_lose :: rat
  r_lose :: rat
  r_ev :: rat
  r_decision :: string
  r_flag :: string
  r_feedback :: string
  r_reflection :: string
  r_rt_seconds :: rat
  r_difficulty :: int

text \<open>The keys of \<open>st.session_state\<close> that \<open>init_state\<close> creates.\<close>

record session =
  participant_id :: string
  phase :: string
  trial_index :: int
  difficulty :: int
  current_gamble :: MixedGamble
  rng_seed :: int
  logs :: "row list"
  last_flags :: "string list"
  trial_started_at :: rat
  reflection :: string

text \<open>
  Library functions whose results only pass through the log are parameters of the model,
  so that every theorem holds whatever they compute: the seeding of \<open>random.Random(seed)\<close>
  (a function of the seed), the text of \<open>coach_feedback_template\<close> (three templates around
  formatted floats), \<open>str.strip\<close> and \<open>round(rt, 3)\<close>.
\<close>

record lib =
  Random :: "int \<Rightarrow> rng"
  coach :: "MixedGamble \<Rightarrow> string \<Rightarrow> string \<Rightarrow> string"
  strip :: "string \<Rightarrow> string"
  round3 :: "rat \<Rightarrow> rat"

text \<open>
  One interaction with the page: the button pressed, the text of the reflection field, and
  what the operating system supplies while the press is handled (the next \<open>uuid4\<close>, the
  clock read by \<open>log_decision\<close>, its formatted time, the clock read by \<open>advance_trial\<close>).
\<close>

datatype button = Start | Accept | Reject

record event =
  button :: button
  text_input :: string
  uuid4 :: string
  time_log :: rat
  strftime :: string
  time_adv :: rat

text \<open>What a fresh session reads from the operating system in \<open>init_state\<close>.\<close>

record boot =
  b_participant :: string
  b_rng :: rng
  b_uuid4 :: string
  b_time_seed :: rat
  b_time_start :: rat

definition init_state :: "boot \<Rightarrow> error + session" where
  "init_state b =
     (case sample_mixed_gamble 0 (b_rng b) (b_uuid4 b) of
        Inl x \<Rightarrow> Inl x
      | Inr g \<Rightarrow>
          Inr \<lparr>participant_id = take 8 (b_participant b), phase = ''consent'',
               trial_index = 0, difficulty = 0, current_gamble = g,
               rng_seed = (if b_time_seed b \<ge> 0 then \<lfloor>b_time_seed b\<rfloor> else \<lceil>b_time_seed b\<rceil>),
               logs = [], last_flags = [], trial_started_at = b_time_start b,
               reflection = []\<rparr>)"

definition rng :: "lib \<Rightarrow> session \<Rightarrow> rng" where
  "rng L s = Random L (rng_seed s + trial_index s)"

definition phase_total_trials :: "string \<Rightarrow> int" where
  "phase_total_trials ph =
     (case map_of [(''pre'', N_PRE), (''train'', N_TRAIN), (''post'', N_POST)] ph of
        Some n \<Rightarrow> n
      | None \<Rightarrow> 0)"

definition advance_trial :: "lib \<Rightarrow> event \<Rightarrow> session \<Rightarrow> error + session" where
  "advance_trial L e s =
     (let s1 = s\<lparr>trial_index := trial_index s + 1, reflection := [],
                 trial_started_at := time_adv e\<rparr>;
          total = phase_total_trials (phase s1);
          s2 = (if trial_index s1 \<ge> total then
                  (let s' = (if phase s1 = ''pre'' then s1\<lparr>phase := ''train''\<rparr>
                             else if phase s1 = ''train'' then s1\<lparr>phase := ''post''\<rparr>
                             else if phase s1 = ''post'' then s1\<lparr>phase := ''done''\<rparr>
                             else s1)
                   in s'\<lparr>trial_index := 0, difficulty := 0, last_flags := []\<rparr>)
                else s1)
      in if phase s2 \<in> set [''pre'', ''train'', ''post''] then
           (case sample_mixed_gamble (difficulty s2) (rng L s2) (uuid4 e) of
              Inl x \<Rightarrow> Inl x
            | Inr g \<Rightarrow> Inr (s2\<lparr>current_gamble := g\<rparr>))
         else Inr s2)"

definition log_decision ::
  "lib \<Rightarrow> event \<Rightarrow> string \<Rightarrow> string \<Rightarrow> string \<Rightarrow> string \<Rightarrow> session \<Rightarrow> session" where
  "log_decision L e decision reflection_text feedback flag s =
     (let g = current_gamble s;
          rt = time_log e - trial_started_at s;
          new_row = \<lparr>r_participant_id = participant_id s, r_timestamp = strftime e,
                     r_phase = phase s, r_trial_in_phase = trial_index s,
                     r_gamble_id = gamble_id g, r_p_win = p_win g, r_win = win g,
                     r_p_lose = p_lose g, r_lose = lose g, r_ev = ev g,
                     r_decision = decision, r_flag = flag, r_feedback = feedback,
                     r_reflection = strip L reflection_text, r_rt_seconds = round3 L rt,
                     r_difficulty = difficulty s\<rparr>
      in s\<lparr>logs := logs s @ [new_row]\<rparr>)"

text \<open>
  \<open>handle(decision)\<close> is a closure of the page: \<open>g\<close> and \<open>phase\<close> are the gamble and the
  phase of the session when the page was drawn, \<open>reflection\<close> is the text of the field.
\<close>

definition handle :: "lib \<Rightarrow> event \<Rightarrow> string \<Rightarrow> session \<Rightarrow> error + session" where
  "handle L e decision s =
     (let g = current_gamble s;
          ph = phase s;
          reflection_text = (if ph = ''train'' then text_input e else []);
          flag = simple_loss_aversion_flag g decision;
          s1 = (if ph = ''train'' then
                  (let fl = (let xs = last_flags s @ [flag] in drop (length xs - 10) xs)
                   in s\<lparr>last_flags := fl, difficulty := adapt_difficulty (difficulty s) fl\<rparr>)
                else s);
          feedback = (if ph = ''train'' then coach L g decision flag else []);
          s2 = log_decision L e decision (if ph = ''train'' then reflection_text else [])
                 feedback flag s1
      in advance_trial L e s2)"

text \<open>
  The page, one run of the script for one press. In the consent phase \<open>Start\<close> opens the
  pre-test; in the three trial phases the two decision buttons call \<open>handle\<close>; the finished
  page has no decision button (its restart button, which deletes the session, is outside
  this model).
\<close>

definition page :: "lib \<Rightarrow> event \<Rightarrow> session \<Rightarrow> error + session" where
  "page L e s =
     (if phase s = ''consent'' then
        (if button e = Start then
           (let s1 = s\<lparr>phase := ''pre'', trial_index := 0, difficulty := 0, last_flags := [],
                       trial_started_at := time_adv e\<rparr>
            in case sample_mixed_gamble (difficulty s1) (rng L s1) (uuid4 e) of
                 Inl x \<Rightarrow> Inl x
               | Inr g \<Rightarrow> Inr (s1\<lparr>current_gamble := g\<rparr>))
         else Inr s)
      else if phase s \<in> set [''pre'', ''train'', ''post''] then
        (let s1 = (if phase s = ''train'' then s\<lparr>reflection := text_input e\<rparr> else s)
         in case button e of
              Accept \<Rightarrow> handle L e ''accept'' s1
            | Reject \<Rightarrow> handle L e ''reject'' s1
            | Start \<Rightarrow> Inr s1)
      else Inr s)"

fun run :: "lib \<Rightarrow> event list \<Rightarrow> session \<Rightarrow> error + session" where
  "run L [] s = Inr s"
| "run L (e # es) s = (case page L e s of Inl x \<Rightarrow> Inl x | Inr s' \<Rightarrow> run L es s')"

subsection \<open>The specification's fraction of flags\<close>

text \<open>
  The specification speaks of the fraction of the entries of the flag history that are equal
  to \<open>loss_aversion_possible\<close>. This is that fraction as the specification words it; the
  source computes it as a sum of ones over a filtered generator, divided by the length.
\<close>

definition spec_fraction :: "string list \<Rightarrow> rat" where
  "spec_fraction flags =
     of_nat (length (filter (\<lambda>f. f = ''loss_aversion_possible'') flags)) / of_nat (length flags)"

subsection \<open>Notions used in the statements\<close>

text \<open>
  \<open>decided\<close> is the session at the moment \<open>handle\<close> calls \<open>advance_trial\<close>: the flag window
  and the difficulty updated (training only) and the row appended. \<open>next_phase\<close> is the
  successor of a trial phase in \<open>advance_trial\<close>.
\<close>

definition decided :: "lib \<Rightarrow> event \<Rightarrow> string \<Rightarrow> session \<Rightarrow> session" where
  "decided L e decision s =
     (let g = current_gamble s;
          flag = simple_loss_aversion_flag g decision;
          fl = drop (length (last_flags s @ [flag]) - 10) (last_flags s @ [flag])
      in if phase s = ''train'' then
           log_decision L e decision (text_input e) (coach L g decision flag) flag
             (s\<lparr>last_flags := fl, difficulty := adapt_difficulty (difficulty s) fl\<rparr>)
         else log_decision L e decision [] [] flag s)"

definition next_phase :: "string \<Rightarrow> string" where
  "next_phase ph = (if ph = ''pre'' then ''train'' else if ph = ''train'' then ''post'' else ''done'')"

text \<open>
  Concrete inputs for the examples: a library whose generator seeded with \<open>n\<close> draws
  \<open>|n|, |n| + 1, ...\<close>, the readings of a fresh session, and a press of a button.
\<close>

definition lib0 :: lib where
  "lib0 = \<lparr>Random = (\<lambda>seed k. nat \<bar>seed\<bar> + k), coach = (\<lambda>g d f. f), strip = (\<lambda>t. t),
           round3 = (\<lambda>x. x)\<rparr>"

definition boot0 :: boot where
  "boot0 = \<lparr>b_participant = ''5d41402a-bc4b'', b_rng = (\<lambda>k. 3 * k),
            b_uuid4 = ''7e57c0de-0000'', b_time_seed = 1700000000,
            b_time_start = 1700000000\<rparr>"

definition press :: "button \<Rightarrow> event" where
  "press b = \<lparr>button = b, text_input = ''the loss felt too big'', uuid4 = ''0f1e2d3c-4b5a'',
              time_log = 1700000005, strftime = ''2023-11-14 22:13:25'',
              time_adv = 1700000005\<rparr>"

text \<open>
  The session reached from the fresh session of \<open>boot0\<close> by a list of presses, its
  difficulty tier, and the tiers recorded in its log.
\<close>

definition session_after :: "event list \<Rightarrow> error + session" where
  "session_after es = (case init_state boot0 of Inl x \<Rightarrow> Inl x | Inr s0 \<Rightarrow> run lib0 es s0)"

definition tier_after :: "event list \<Rightarrow> int option" where
  "tier_after es = (case session_after es of Inl x \<Rightarrow> None | Inr s \<Rightarrow> Some (difficulty s))"

definition logged_tiers :: "event list \<Rightarrow> int list" where
  "logged_tiers es = (case session_after es of Inl x \<Rightarrow> [] | Inr s \<Rightarrow> map r_difficulty (logs s))"

text \<open>
  A second run of the same press, in which the operating system returns another \<open>uuid4\<close>;
  the seed, phase and trial index of the session reached by a list of presses, and its
  pending gamble.
\<close>

definition replay :: "button \<Rightarrow> event" where
  "replay b = (press b)\<lparr>uuid4 := ''c4d5e6f7-8a9b''\<rparr>"

definition trial_after :: "event list \<Rightarrow> (int \<times> string \<times> int) option" where
  "trial_after es =
     (case session_after es of Inl x \<Rightarrow> None
      | Inr s \<Rightarrow> Some (rng_seed s, phase s, trial_index s))"

definition gamble_after :: "event list \<Rightarrow> MixedGamble option" where
  "gamble_after es =
     (case session_after es of Inl x \<Rightarrow> None | Inr s \<Rightarrow> Some (current_gamble s))"

section \<open>Properties\<close>

subsection \<open>Auxiliary facts\<close>

lemma choice_mem:
  "xs \<noteq> [] \<Longrightarrow> \<exists>x r'. choice r xs = Inr (x, r') \<and> x \<in> set xs"
  by (simp add: choice_def)

lemma candidates_nonempty: "fst (candidates d) \<noteq> [] \<and> snd (candidates d) \<noteq> []"
  by (simp add: candidates_def)

lemma sample_shape:
  "\<exists>w l. w \<in> set (fst (candidates d)) \<and> l \<in> set (snd (candidates d)) \<and>
      sample_mixed_gamble d r u =
        Inr \<lparr>p_win = 1 / 2, win = of_int w, p_lose = 1 / 2, lose = of_int l,
             gamble_id = take 8 u\<rparr>"
proof -
  obtain ws ls where c: "candidates d = (ws, ls)" by (cases "candidates d")
  with candidates_nonempty [of d] have ne: "ws \<noteq> []" "ls \<noteq> []" by simp_all
  from choice_mem [OF ne(1)] obtain w r1 where w: "choice r ws = Inr (w, r1)" "w \<in> set ws"
    by blast
  from choice_mem [OF ne(2)] obtain l r2 where l: "choice r1 ls = Inr (l, r2)" "l \<in> set ls"
    by blast
  show ?thesis
    using c w l by (auto simp: sample_mixed_gamble_def Let_def)
qed

lemma count_ones: "sum_list (map (\<lambda>f. 1) xs) = int (length xs)"
  by (induction xs) simp_all

lemma adapt_difficulty_fraction:
  "flags \<noteq> [] \<Longrightarrow>
   adapt_difficulty tier flags =
     (if spec_fraction flags \<ge> 6 / 10 then max 0 (tier - 1)
      else if spec_fraction flags \<le> 2 / 10 then min 2 (tier + 1)
      else tier)"
  by (simp add: adapt_difficulty_def spec_fraction_def count_ones Let_def)

subsection \<open>DifficultyAdapter\<close>

text \<open>
  Claim C1. For every current tier and every list of recent flags, \<open>adapt_difficulty\<close>
  returns the tier unchanged when the list is empty; otherwise, with \<open>f\<close> the fraction of
  entries equal to \<open>loss_aversion_possible\<close>, it returns \<open>max(0, tier - 1)\<close> when
  \<open>f \<ge> 0.6\<close>, \<open>min(2, tier + 1)\<close> when \<open>f \<le> 0.2\<close>, and the tier unchanged otherwise.
\<close>

theorem adapt_difficulty_rule:
  "(flags = [] \<longrightarrow> adapt_difficulty tier flags = tier) \<and>
   (flags \<noteq> [] \<and> spec_fraction flags \<ge> 6 / 10 \<longrightarrow>
      adapt_difficulty tier flags = max 0 (tier - 1)) \<and>
   (flags \<noteq> [] \<and> spec_fraction flags \<le> 2 / 10 \<longrightarrow>
      adapt_difficulty tier flags = min 2 (tier + 1)) \<and>
   (flags \<noteq> [] \<and> 2 / 10 < spec_fraction flags \<and> spec_fraction flags < 6 / 10 \<longrightarrow>
      adapt_difficulty tier flags = tier)"
proof (cases "flags = []")
  case True
  then show ?thesis by (simp add: adapt_difficulty_def)
next
  case False
  then show ?thesis by (simp add: adapt_difficulty_fraction)
qed

text \<open>
  The rule at the examples of the specification: an empty history, six flags of ten
  (fraction 0.6), one flag of ten at the ceiling (fraction 0.1), and one flag of three,
  which lies between the thresholds.
\<close>

theorem adapt_difficulty_rule_witness:
  "adapt_difficulty 1 [] = 1 \<and>
   (replicate 6 ''loss_aversion_possible'' @ replicate 4 ''none'' \<noteq> [] \<and>
    spec_fraction (replicate 6 ''loss_aversion_possible'' @ replicate 4 ''none'') \<ge> 6 / 10 \<and>
    adapt_difficulty 1 (replicate 6 ''loss_aversion_possible'' @ replicate 4 ''none'') = 0) \<and>
   (replicate 9 ''none'' @ [''loss_aversion_possible''] \<noteq> [] \<and>
    spec_fraction (replicate 9 ''none'' @ [''loss_aversion_possible'']) \<le> 2 / 10 \<and>
    adapt_difficulty 2 (replicate 9 ''none'' @ [''loss_aversion_possible'']) = 2) \<and>
   ([''loss_aversion_possible'', ''none'', ''none''] \<noteq> [] \<and>
    2 / 10 < spec_fraction [''loss_aversion_possible'', ''none'', ''none''] \<and>
    spec_fraction [''loss_aversion_possible'', ''none'', ''none''] < 6 / 10 \<and>
    adapt_difficulty 1 [''loss_aversion_possible'', ''none'', ''none''] = 1)"
  using adapt_difficulty_rule [of "[]" 1]
    adapt_difficulty_rule [of "replicate 6 ''loss_aversion_possible'' @ replicate 4 ''none''" 1]
    adapt_difficulty_rule [of "replicate 9 ''none'' @ [''loss_aversion_possible'']" 2]
    adapt_difficulty_rule [of "[''loss_aversion_possible'', ''none'', ''none'']" 1]
  by (simp add: spec_fraction_def)

subsection \<open>FlagClassifier\<close>

text \<open>
  Claim C2. For every gamble and every decision among \<open>accept\<close> and \<open>reject\<close>,
  \<open>simple_loss_aversion_flag\<close> returns \<open>loss_aversion_possible\<close> exactly when the expected
  value is at least 2 and the decision is \<open>reject\<close>, \<open>risk_seeking_or_noise\<close> exactly when
  the expected value is at most -2 and the decision is \<open>accept\<close>, and \<open>none\<close> in every
  other case; two gambles of the same expected value get the same flag for the same
  decision, so the result depends on these two inputs only.
\<close>

theorem simple_loss_aversion_flag_rule:
  "decision \<in> {''accept'', ''reject''} \<Longrightarrow>
   (simple_loss_aversion_flag g decision = ''loss_aversion_possible'' \<longleftrightarrow>
      ev g \<ge> 2 \<and> decision = ''reject'') \<and>
   (simple_loss_aversion_flag g decision = ''risk_seeking_or_noise'' \<longleftrightarrow>
      ev g \<le> - 2 \<and> decision = ''accept'') \<and>
   (simple_loss_aversion_flag g decision = ''none'' \<longleftrightarrow>
      \<not> (ev g \<ge> 2 \<and> decision = ''reject'') \<and> \<not> (ev g \<le> - 2 \<and> decision = ''accept'')) \<and>
   (\<forall>g'. ev g' = ev g \<longrightarrow>
      simple_loss_aversion_flag g' decision = simple_loss_aversion_flag g decision)"
  by (auto simp: simple_loss_aversion_flag_def)

text \<open>
  The three examples of the specification (expected values 5, -5 and 0.5), and a second
  gamble of expected value 5 that gets the flag of the first.
\<close>

theorem simple_loss_aversion_flag_rule_witness:
  "''reject'' \<in> {''accept'', ''reject''} \<and>
   simple_loss_aversion_flag
     \<lparr>p_win = 1 / 2, win = 20, p_lose = 1 / 2, lose = 10, gamble_id = ''0a1b2c3d''\<rparr>
     ''reject'' = ''loss_aversion_possible'' \<and>
   ''accept'' \<in> {''accept'', ''reject''} \<and>
   simple_loss_aversion_flag
     \<lparr>p_win = 1 / 2, win = 10, p_lose = 1 / 2, lose = 20, gamble_id = ''0a1b2c3d''\<rparr>
     ''accept'' = ''risk_seeking_or_noise'' \<and>
   simple_loss_aversion_flag
     \<lparr>p_win = 1 / 2, win = 11, p_lose = 1 / 2, lose = 10, gamble_id = ''0a1b2c3d''\<rparr>
     ''accept'' = ''none'' \<and>
   (ev \<lparr>p_win = 1 / 2, win = 30, p_lose = 1 / 2, lose = 20, gamble_id = ''ffffffff''\<rparr> =
    ev \<lparr>p_win = 1 / 2, win = 20, p_lose = 1 / 2, lose = 10, gamble_id = ''0a1b2c3d''\<rparr> \<and>
    simple_loss_aversion_flag
      \<lparr>p_win = 1 / 2, win = 30, p_lose = 1 / 2, lose = 20, gamble_id = ''ffffffff''\<rparr>
      ''reject'' = ''loss_aversion_possible'')"
  using
    simple_loss_aversion_flag_rule [of "''reject''"
      "\<lparr>p_win = 1 / 2, win = 20, p_lose = 1 / 2, lose = 10, gamble_id = ''0a1b2c3d''\<rparr>"]
    simple_loss_aversion_flag_rule [of "''accept''"
      "\<lparr>p_win = 1 / 2, win = 10, p_lose = 1 / 2, lose = 20, gamble_id = ''0a1b2c3d''\<rparr>"]
    simple_loss_aversion_flag_rule [of "''accept''"
      "\<lparr>p_win = 1 / 2, win = 11, p_lose = 1 / 2, lose = 10, gamble_id = ''0a1b2c3d''\<rparr>"]
  by (simp add: ev_def)

subsection \<open>GambleGenerator\<close>

text \<open>
  Claim C3. For every difficulty tier among 0, 1 and 2 and every randomness source,
  \<open>sample_mixed_gamble\<close> succeeds and returns a gamble whose two probabilities are 0.5
  and whose amounts are strictly positive and drawn from the candidate sets of the tier.
\<close>

theorem sample_mixed_gamble_tiers:
  "d \<in> {0, 1, 2} \<Longrightarrow>
   \<exists>g. sample_mixed_gamble d r u = Inr g \<and>
       p_win g = 1 / 2 \<and> p_lose g = 1 / 2 \<and> 0 < win g \<and> 0 < lose g \<and>
       (d = 0 \<longrightarrow> win g \<in> {6, 8, 10, 12, 14, 16} \<and> lose g \<in> {4, 6, 8, 10, 12}) \<and>
       (d = 1 \<longrightarrow>
          win g \<in> {10, 12, 14, 16, 18, 20, 22} \<and> lose g \<in> {8, 10, 12, 14, 16, 18}) \<and>
       (d = 2 \<longrightarrow>
          win g \<in> {16, 18, 20, 22, 24, 26, 28, 30} \<and>
          lose g \<in> {12, 14, 16, 18, 20, 22, 24})"
  using sample_shape [of d r u]
  by (auto simp: candidates_def)

text \<open>Tier 1 with the draws 7 and 8: the first win candidate and the third loss candidate.\<close>

theorem sample_mixed_gamble_tiers_witness:
  "(1::int) \<in> {0, 1, 2} \<and>
   sample_mixed_gamble 1 (\<lambda>k. 7 + k) ''3f2b8c1e-aaaa'' =
     Inr \<lparr>p_win = 1 / 2, win = 10, p_lose = 1 / 2, lose = 12, gamble_id = ''3f2b8c1e''\<rparr> \<and>
   (10::rat) \<in> {10, 12, 14, 16, 18, 20, 22} \<and> (12::rat) \<in> {8, 10, 12, 14, 16, 18}"
  using sample_mixed_gamble_tiers [of 1 "\<lambda>k. 7 + k" "''3f2b8c1e-aaaa''"]
  by (simp add: sample_mixed_gamble_def candidates_def choice_def Let_def)

text \<open>
  Claim C9. For every generated gamble the expected value is
  \<open>p_win * win - p_lose * lose\<close>, which with both probabilities at 0.5 is
  \<open>(win - lose) / 2\<close>.
\<close>

theorem ev_of_generated:
  "sample_mixed_gamble d r u = Inr g \<Longrightarrow>
   ev g = p_win g * win g - p_lose g * lose g \<and> ev g = (win g - lose g) / 2"
  using sample_shape [of d r u]
  by (auto simp: ev_def field_simps)

text \<open>The gamble of the specification's example: win 20, loss 10, expected value 5.\<close>

theorem ev_of_generated_witness:
  "sample_mixed_gamble 1 (\<lambda>k. if k = 0 then 5 else 1) ''9c0d1e2f-bbbb'' =
     Inr \<lparr>p_win = 1 / 2, win = 20, p_lose = 1 / 2, lose = 10, gamble_id = ''9c0d1e2f''\<rparr> \<and>
   ev \<lparr>p_win = 1 / 2, win = 20, p_lose = 1 / 2, lose = 10, gamble_id = ''9c0d1e2f''\<rparr> = 5"
  using ev_of_generated [of 1 "\<lambda>k. if k = 0 then 5 else 1" "''9c0d1e2f-bbbb''"
      "\<lparr>p_win = 1 / 2, win = 20, p_lose = 1 / 2, lose = 10, gamble_id = ''9c0d1e2f''\<rparr>"]
  by (simp add: sample_mixed_gamble_def candidates_def choice_def Let_def)

text \<open>
  Claim C10. \<open>sample_mixed_gamble\<close> is total over the integers: it never fails, a
  difficulty of at most 0 draws exactly as tier 0 does and a difficulty of at least 2 exactly
  as tier 2 does, and the amounts always lie in the three documented candidate sets.
\<close>

theorem sample_mixed_gamble_total:
  "(\<exists>g. sample_mixed_gamble d r u = Inr g \<and>
        win g \<in> {6, 8, 10, 12, 14, 16} \<union> {10, 12, 14, 16, 18, 20, 22} \<union>
                {16, 18, 20, 22, 24, 26, 28, 30} \<and>
        lose g \<in> {4, 6, 8, 10, 12} \<union> {8, 10, 12, 14, 16, 18} \<union>
                 {12, 14, 16, 18, 20, 22, 24} \<and>
        (d \<le> 0 \<longrightarrow> win g \<in> {6, 8, 10, 12, 14, 16} \<and> lose g \<in> {4, 6, 8, 10, 12}) \<and>
        (d \<ge> 2 \<longrightarrow> win g \<in> {16, 18, 20, 22, 24, 26, 28, 30} \<and>
                   lose g \<in> {12, 14, 16, 18, 20, 22, 24})) \<and>
   (d \<le> 0 \<longrightarrow> sample_mixed_gamble d r u = sample_mixed_gamble 0 r u) \<and>
   (d \<ge> 2 \<longrightarrow> sample_mixed_gamble d r u = sample_mixed_gamble 2 r u)"
proof -
  have "d \<le> 0 \<Longrightarrow> candidates d = candidates 0" "d \<ge> 2 \<Longrightarrow> candidates d = candidates 2"
    by (simp_all add: candidates_def)
  then have same: "d \<le> 0 \<longrightarrow> sample_mixed_gamble d r u = sample_mixed_gamble 0 r u"
    "d \<ge> 2 \<longrightarrow> sample_mixed_gamble d r u = sample_mixed_gamble 2 r u"
    by (simp_all add: sample_mixed_gamble_def)
  show ?thesis
    using sample_shape [of d r u] same
    by (auto simp: candidates_def split: if_splits)
qed

text \<open>The difficulties -3 and 7 with the draws 7 and 8.\<close>

theorem sample_mixed_gamble_total_witness:
  "(- 3 :: int) \<le> 0 \<and>
   sample_mixed_gamble (- 3) (\<lambda>k. 7 + k) ''3f2b8c1e-aaaa'' =
     sample_mixed_gamble 0 (\<lambda>k. 7 + k) ''3f2b8c1e-aaaa'' \<and>
   sample_mixed_gamble (- 3) (\<lambda>k. 7 + k) ''3f2b8c1e-aaaa'' =
     Inr \<lparr>p_win = 1 / 2, win = 8, p_lose = 1 / 2, lose = 10, gamble_id = ''3f2b8c1e''\<rparr> \<and>
   (7 :: int) \<ge> 2 \<and>
   sample_mixed_gamble 7 (\<lambda>k. 7 + k) ''3f2b8c1e-aaaa'' =
     sample_mixed_gamble 2 (\<lambda>k. 7 + k) ''3f2b8c1e-aaaa'' \<and>
   sample_mixed_gamble 7 (\<lambda>k. 7 + k) ''3f2b8c1e-aaaa'' =
     Inr \<lparr>p_win = 1 / 2, win = 30, p_lose = 1 / 2, lose = 14, gamble_id = ''3f2b8c1e''\<rparr>"
  using sample_mixed_gamble_total [of "- 3" "\<lambda>k. 7 + k" "''3f2b8c1e-aaaa''"]
    sample_mixed_gamble_total [of 7 "\<lambda>k. 7 + k" "''3f2b8c1e-aaaa''"]
  by (simp add: sample_mixed_gamble_def candidates_def choice_def Let_def)

subsection \<open>ExperimentSession: auxiliary facts\<close>

lemma sample_not_error: "sample_mixed_gamble d r u \<noteq> Inl x"
  using sample_shape [of d r u] by auto

lemma sample_obtain: "\<exists>g. sample_mixed_gamble d r u = Inr g"
  using sample_shape [of d r u] by auto

lemma phase_total_trials_simps:
  "phase_total_trials ''pre'' = 40" "phase_total_trials ''train'' = 25"
  "phase_total_trials ''post'' = 40"
  by (simp_all add: phase_total_trials_def N_PRE_def N_TRAIN_def N_POST_def)

lemma handle_decided: "handle L e d s = advance_trial L e (decided L e d s)"
  by (simp add: handle_def decided_def Let_def)

lemma decided_fields:
  "phase (decided L e d s) = phase s"
  "trial_index (decided L e d s) = trial_index s"
  "current_gamble (decided L e d s) = current_gamble s"
  "rng_seed (decided L e d s) = rng_seed s"
  "participant_id (decided L e d s) = participant_id s"
  "difficulty (decided L e d s) =
     (if phase s = ''train'' then
        adapt_difficulty (difficulty s)
          (drop (length (last_flags s @ [simple_loss_aversion_flag (current_gamble s) d]) - 10)
             (last_flags s @ [simple_loss_aversion_flag (current_gamble s) d]))
      else difficulty s)"
  by (simp_all add: decided_def log_decision_def Let_def)

lemma decided_logs:
  "\<exists>new_row. logs (decided L e d s) = logs s @ [new_row] \<and>
     r_phase new_row = phase s \<and> r_trial_in_phase new_row = trial_index s \<and>
     r_decision new_row = d \<and>
     r_flag new_row = simple_loss_aversion_flag (current_gamble s) d \<and>
     r_gamble_id new_row = gamble_id (current_gamble s) \<and>
     r_win new_row = win (current_gamble s) \<and> r_lose new_row = lose (current_gamble s) \<and>
     r_difficulty new_row = difficulty (decided L e d s)"
  by (simp add: decided_def log_decision_def Let_def)

lemma advance_trial_keeps:
  "\<exists>s'. advance_trial L e s = Inr s' \<and> logs s' = logs s \<and>
     participant_id s' = participant_id s \<and> rng_seed s' = rng_seed s"
  by (auto simp: advance_trial_def Let_def sample_not_error split: sum.splits)

lemma handle_row:
  "\<exists>s' new_row. handle L e d s = Inr s' \<and> logs s' = logs s @ [new_row] \<and>
     r_phase new_row = phase s \<and> r_trial_in_phase new_row = trial_index s \<and>
     r_decision new_row = d \<and>
     r_flag new_row = simple_loss_aversion_flag (current_gamble s) d \<and>
     r_gamble_id new_row = gamble_id (current_gamble s) \<and>
     r_win new_row = win (current_gamble s) \<and> r_lose new_row = lose (current_gamble s) \<and>
     r_difficulty new_row = difficulty (decided L e d s)"
  using advance_trial_keeps [of L e "decided L e d s"] decided_logs [of L e d s]
  by (auto simp: handle_decided)

lemma advance_trial_within:
  assumes "phase s \<in> {''pre'', ''train'', ''post''}"
    and "trial_index s + 1 < phase_total_trials (phase s)"
  shows "\<exists>g. sample_mixed_gamble (difficulty s) (Random L (rng_seed s + (trial_index s + 1)))
              (uuid4 e) = Inr g \<and>
           advance_trial L e s =
             Inr (s\<lparr>trial_index := trial_index s + 1, reflection := [],
                    trial_started_at := time_adv e, current_gamble := g\<rparr>)"
proof -
  obtain g where g: "sample_mixed_gamble (difficulty s)
      (Random L (rng_seed s + (trial_index s + 1))) (uuid4 e) = Inr g"
    using sample_obtain by blast
  show ?thesis
    using assms g by (auto simp: advance_trial_def Let_def rng_def)
qed

lemma advance_trial_boundary:
  assumes "phase s \<in> {''pre'', ''train''}"
    and "trial_index s + 1 \<ge> phase_total_trials (phase s)"
  shows "\<exists>g. sample_mixed_gamble 0 (Random L (rng_seed s + 0)) (uuid4 e) = Inr g \<and>
           advance_trial L e s =
             Inr (s\<lparr>trial_index := 0, reflection := [], trial_started_at := time_adv e,
                    phase := next_phase (phase s), difficulty := 0, last_flags := [],
                    current_gamble := g\<rparr>)"
proof -
  obtain g where g: "sample_mixed_gamble 0 (Random L (rng_seed s + 0)) (uuid4 e) = Inr g"
    using sample_obtain by blast
  show ?thesis
    using assms g by (auto simp: advance_trial_def Let_def rng_def next_phase_def)
qed

lemma advance_trial_finish:
  assumes "phase s = ''post''"
    and "trial_index s + 1 \<ge> phase_total_trials (phase s)"
  shows "advance_trial L e s =
             Inr (s\<lparr>trial_index := 0, reflection := [], trial_started_at := time_adv e,
                    phase := ''done'', difficulty := 0, last_flags := []\<rparr>)"
  using assms by (simp add: advance_trial_def Let_def)




lemma handle_within:
  assumes "phase s \<in> {''pre'', ''train'', ''post''}"
    and "trial_index s + 1 < phase_total_trials (phase s)"
  shows "\<exists>s'. handle L e d s = Inr s' \<and> phase s' = phase s \<and>
           trial_index s' = trial_index s + 1 \<and> logs s' = logs (decided L e d s) \<and>
           difficulty s' = difficulty (decided L e d s) \<and>
           last_flags s' = last_flags (decided L e d s) \<and>
           rng_seed s' = rng_seed s \<and> participant_id s' = participant_id s \<and>
           sample_mixed_gamble (difficulty s') (Random L (rng_seed s + (trial_index s + 1)))
             (uuid4 e) = Inr (current_gamble s')"
  using advance_trial_within [of "decided L e d s" L e] assms
  by (auto simp: handle_decided decided_fields)

lemma handle_boundary:
  assumes "phase s \<in> {''pre'', ''train''}"
    and "trial_index s + 1 \<ge> phase_total_trials (phase s)"
  shows "\<exists>s'. handle L e d s = Inr s' \<and> phase s' = next_phase (phase s) \<and>
           trial_index s' = 0 \<and> logs s' = logs (decided L e d s) \<and>
           difficulty s' = 0 \<and> last_flags s' = [] \<and>
           rng_seed s' = rng_seed s \<and> participant_id s' = participant_id s \<and>
           sample_mixed_gamble 0 (Random L (rng_seed s + 0)) (uuid4 e) =
             Inr (current_gamble s')"
  using advance_trial_boundary [of "decided L e d s" L e] assms
  by (auto simp: handle_decided decided_fields)

lemma handle_finish:
  assumes "phase s = ''post''"
    and "trial_index s + 1 \<ge> phase_total_trials (phase s)"
  shows "\<exists>s'. handle L e d s = Inr s' \<and> phase s' = ''done'' \<and>
           trial_index s' = 0 \<and> logs s' = logs (decided L e d s) \<and>
           difficulty s' = 0 \<and> last_flags s' = [] \<and>
           rng_seed s' = rng_seed s \<and> participant_id s' = participant_id s \<and>
           current_gamble s' = current_gamble s"
  using advance_trial_finish [of "decided L e d s" L e] assms
  by (auto simp: handle_decided decided_fields)

lemma page_trial:
  assumes "phase s \<in> {''pre'', ''train'', ''post''}" and "button e \<noteq> Start"
  shows "page L e s =
           handle L e (if button e = Accept then ''accept'' else ''reject'')
             (if phase s = ''train'' then s\<lparr>reflection := text_input e\<rparr> else s)"
  using assms by (cases "button e") (auto simp: page_def)

lemma page_step:
  assumes "phase s \<in> {''pre'', ''train'', ''post''}" and "button e \<noteq> Start"
  shows "\<exists>s'. page L e s = Inr s' \<and>
           map r_phase (logs s') = map r_phase (logs s) @ [phase s] \<and>
           map r_trial_in_phase (logs s') = map r_trial_in_phase (logs s) @ [trial_index s] \<and>
           r_gamble_id (last (logs s')) = gamble_id (current_gamble s) \<and>
           (if trial_index s + 1 < phase_total_trials (phase s)
            then phase s' = phase s \<and> trial_index s' = trial_index s + 1
            else phase s' = next_phase (phase s) \<and> trial_index s' = 0 \<and>
                 difficulty s' = 0 \<and> last_flags s' = [] \<and>
                 (phase s = ''post'' \<longrightarrow> current_gamble s' = current_gamble s))"
proof -
  define d where "d = (if button e = Accept then ''accept'' else ''reject'')"
  define s1 where "s1 = (if phase s = ''train'' then s\<lparr>reflection := text_input e\<rparr> else s)"
  have pg: "page L e s = handle L e d s1"
    using page_trial [OF assms] by (simp add: d_def s1_def)
  have s1: "phase s1 = phase s" "trial_index s1 = trial_index s" "logs s1 = logs s"
    "current_gamble s1 = current_gamble s"
    by (simp_all add: s1_def)
  obtain new_row where row: "logs (decided L e d s1) = logs s1 @ [new_row]"
    "r_phase new_row = phase s1" "r_trial_in_phase new_row = trial_index s1"
    "r_gamble_id new_row = gamble_id (current_gamble s1)"
    using decided_logs [of L e d s1] by blast
  show ?thesis
  proof (cases "trial_index s + 1 < phase_total_trials (phase s)")
    case True
    then show ?thesis
      using handle_within [of s1 L e d] assms(1) s1 row pg by auto
  next
    case False
    show ?thesis
    proof (cases "phase s = ''post''")
      case True
      then show ?thesis
        using handle_finish [of s1 L e d] False s1 row pg by (auto simp: next_phase_def)
    next
      case False
      with assms(1) have "phase s1 \<in> {''pre'', ''train''}" by (simp add: s1)
      then show ?thesis
        using handle_boundary [of s1 L e d] \<open>\<not> trial_index s + 1 < phase_total_trials (phase s)\<close>
          False s1 row pg by auto
    qed
  qed
qed


lemma run_append:
  "run L (xs @ ys) s = (case run L xs s of Inl x \<Rightarrow> Inl x | Inr s' \<Rightarrow> run L ys s')"
  by (induction xs arbitrary: s) (auto split: sum.splits)

lemma run_phase:
  assumes "es \<noteq> []"
    and "\<forall>e\<in>set es. button e \<noteq> Start"
    and "phase s \<in> {''pre'', ''train'', ''post''}"
    and "0 \<le> trial_index s"
    and "trial_index s + int (length es) = phase_total_trials (phase s)"
  shows "\<exists>s'. run L es s = Inr s' \<and>
           map r_phase (logs s') = map r_phase (logs s) @ replicate (length es) (phase s) \<and>
           map r_trial_in_phase (logs s') =
             map r_trial_in_phase (logs s) @
             map int [nat (trial_index s)..<nat (trial_index s) + length es] \<and>
           phase s' = next_phase (phase s) \<and> trial_index s' = 0 \<and>
           difficulty s' = 0 \<and> last_flags s' = [] \<and>
           (phase s = ''post'' \<longrightarrow>
              gamble_id (current_gamble s') = r_gamble_id (last (logs s')))"
  using assms
proof (induction es arbitrary: s rule: list_nonempty_induct)
  case (single e)
  then have b: "button e \<noteq> Start" and last: "\<not> trial_index s + 1 < phase_total_trials (phase s)"
    by simp_all
  from page_step [OF single.prems(2) b, of L] last
  obtain s' where s': "page L e s = Inr s'"
    "map r_phase (logs s') = map r_phase (logs s) @ [phase s]"
    "map r_trial_in_phase (logs s') = map r_trial_in_phase (logs s) @ [trial_index s]"
    "r_gamble_id (last (logs s')) = gamble_id (current_gamble s)"
    "phase s' = next_phase (phase s)" "trial_index s' = 0"
    "difficulty s' = 0" "last_flags s' = []"
    "phase s = ''post'' \<longrightarrow> current_gamble s' = current_gamble s"
    by auto
  then show ?case
    using single.prems(3) by auto
next
  case (cons e es)
  then have b: "button e \<noteq> Start" and bs: "\<forall>x\<in>set es. button x \<noteq> Start" by simp_all
  from cons.hyps cons.prems(4) have more: "trial_index s + 1 < phase_total_trials (phase s)"
    by (cases es) auto
  from page_step [OF cons.prems(2) b, of L] more
  obtain s1 where s1: "page L e s = Inr s1"
    "map r_phase (logs s1) = map r_phase (logs s) @ [phase s]"
    "map r_trial_in_phase (logs s1) = map r_trial_in_phase (logs s) @ [trial_index s]"
    "phase s1 = phase s" "trial_index s1 = trial_index s + 1"
    by auto
  have p1: "phase s1 \<in> {''pre'', ''train'', ''post''}" "0 \<le> trial_index s1"
    "trial_index s1 + int (length es) = phase_total_trials (phase s1)"
    using cons.prems s1 by simp_all
  from cons.IH [OF bs p1]
  obtain s' where s': "run L es s1 = Inr s'"
    "map r_phase (logs s') = map r_phase (logs s1) @ replicate (length es) (phase s1)"
    "map r_trial_in_phase (logs s') =
       map r_trial_in_phase (logs s1) @
       map int [nat (trial_index s1)..<nat (trial_index s1) + length es]"
    "phase s' = next_phase (phase s1)" "trial_index s' = 0"
    "difficulty s' = 0" "last_flags s' = []"
    "phase s1 = ''post'' \<longrightarrow> gamble_id (current_gamble s') = r_gamble_id (last (logs s'))"
    by blast
  have idx: "nat (trial_index s1) = Suc (nat (trial_index s))"
    using cons.prems(3) s1(5) by simp
  have "nat (trial_index s) < Suc (nat (trial_index s) + length es)" by simp
  from upt_conv_Cons [OF this]
  have upt: "[nat (trial_index s)..<Suc (nat (trial_index s) + length es)] =
      nat (trial_index s) # [Suc (nat (trial_index s))..<Suc (nat (trial_index s) + length es)]" .
  have i0: "int (nat (trial_index s)) = trial_index s"
    using cons.prems(3) by simp
  have idx': "nat (trial_index s + 1) = Suc (nat (trial_index s))"
    using cons.prems(3) by simp
  show ?case
    using s1 s' cons.prems(3)
    by (simp add: idx' upt i0 replicate_app_Cons_same del: upt_Suc)
qed

lemma init_state_ok:
  "\<exists>s0. init_state b = Inr s0 \<and> phase s0 = ''consent'' \<and> logs s0 = [] \<and>
     difficulty s0 = 0 \<and> trial_index s0 = 0 \<and> last_flags s0 = []"
proof -
  obtain g where "sample_mixed_gamble 0 (b_rng b) (b_uuid4 b) = Inr g"
    using sample_obtain by blast
  then show ?thesis by (simp add: init_state_def)
qed

lemma page_start:
  assumes "phase s = ''consent''" and "button e = Start"
  shows "\<exists>s'. page L e s = Inr s' \<and> phase s' = ''pre'' \<and> trial_index s' = 0 \<and>
           difficulty s' = 0 \<and> last_flags s' = [] \<and> logs s' = logs s \<and>
           rng_seed s' = rng_seed s \<and> participant_id s' = participant_id s \<and>
           sample_mixed_gamble 0 (Random L (rng_seed s + 0)) (uuid4 e) =
             Inr (current_gamble s')"
proof -
  obtain g where "sample_mixed_gamble 0 (Random L (rng_seed s + 0)) (uuid4 e) = Inr g"
    using sample_obtain by blast
  then show ?thesis using assms by (simp add: page_def rng_def Let_def)
qed

lemma page_done: "phase s = ''done'' \<Longrightarrow> page L e s = Inr s"
  by (simp add: page_def)

lemma three_phases:
  fixes n1 n2 n3 :: nat
  assumes tot: "phase_total_trials ''pre'' = int n1" "phase_total_trials ''train'' = int n2"
      "phase_total_trials ''post'' = int n3"
    and pos: "0 < n1" "0 < n2" "0 < n3"
    and len: "length es1 = n1" "length es2 = n2" "length es3 = n3"
    and nostart: "\<forall>e\<in>set (es1 @ es2 @ es3). button e \<noteq> Start"
    and start: "phase sa = ''pre''" "trial_index sa = 0" "logs sa = []"
  shows "\<exists>sd. run L (es1 @ es2 @ es3) sa = Inr sd \<and>
      map r_phase (logs sd) =
        replicate n1 ''pre'' @ replicate n2 ''train'' @ replicate n3 ''post'' \<and>
      map r_trial_in_phase (logs sd) = map int ([0..<n1] @ [0..<n2] @ [0..<n3]) \<and>
      phase sd = ''done'' \<and>
      gamble_id (current_gamble sd) = r_gamble_id (last (logs sd))"
proof -
  have ne: "es1 \<noteq> []" "es2 \<noteq> []" "es3 \<noteq> []"
    using len pos by auto
  have ns: "\<forall>e\<in>set es1. button e \<noteq> Start" "\<forall>e\<in>set es2. button e \<noteq> Start"
    "\<forall>e\<in>set es3. button e \<noteq> Start"
    using nostart by auto
  have pa: "phase sa \<in> {''pre'', ''train'', ''post''}" "0 \<le> trial_index sa"
    "trial_index sa + int (length es1) = phase_total_trials (phase sa)"
    using start tot len by simp_all
  from run_phase [OF ne(1) ns(1) pa, of L]
  obtain sb where sb: "run L es1 sa = Inr sb"
    "map r_phase (logs sb) = replicate n1 ''pre''"
    "map r_trial_in_phase (logs sb) = map int [0..<n1]"
    "phase sb = ''train''" "trial_index sb = 0"
    using start len by (auto simp: next_phase_def)
  have pb: "phase sb \<in> {''pre'', ''train'', ''post''}" "0 \<le> trial_index sb"
    "trial_index sb + int (length es2) = phase_total_trials (phase sb)"
    using sb tot len by simp_all
  from run_phase [OF ne(2) ns(2) pb, of L]
  obtain sc where sc: "run L es2 sb = Inr sc"
    "map r_phase (logs sc) = replicate n1 ''pre'' @ replicate n2 ''train''"
    "map r_trial_in_phase (logs sc) = map int [0..<n1] @ map int [0..<n2]"
    "phase sc = ''post''" "trial_index sc = 0"
    using sb len by (auto simp: next_phase_def)
  have pc: "phase sc \<in> {''pre'', ''train'', ''post''}" "0 \<le> trial_index sc"
    "trial_index sc + int (length es3) = phase_total_trials (phase sc)"
    using sc tot len by simp_all
  from run_phase [OF ne(3) ns(3) pc, of L]
  obtain sd where sd: "run L es3 sc = Inr sd"
    "map r_phase (logs sd) =
       replicate n1 ''pre'' @ replicate n2 ''train'' @ replicate n3 ''post''"
    "map r_trial_in_phase (logs sd) =
       map int [0..<n1] @ map int [0..<n2] @ map int [0..<n3]"
    "phase sd = ''done''"
    "gamble_id (current_gamble sd) = r_gamble_id (last (logs sd))"
    using sc len by (auto simp: next_phase_def)
  have "run L (es1 @ es2 @ es3) sa = Inr sd"
    using sb(1) sc(1) sd(1) by (simp add: run_append)
  then show ?thesis
    using sd by simp
qed

subsection \<open>ExperimentSession: the full run\<close>

text \<open>
  Claim C4. A fresh session in which the participant starts and then decides 105 times
  (40 pre-test, 25 training and 40 post-test trials) ends with exactly 105 rows in the log;
  their phases are 40 times \<open>pre\<close>, then 25 times \<open>train\<close>, then 40 times \<open>post\<close>, and
  their trial indices count each phase once from 0, so there is one row per trial. The
  session is then in the phase \<open>done\<close>: the last step has drawn no gamble (the pending
  gamble is still the one of the last row) and no press changes the session any more.
\<close>

theorem full_session_log:
  assumes "button e0 = Start" and "length es = 105"
    and "\<forall>e\<in>set es. button e \<in> {Accept, Reject}"
  shows "\<exists>s0 s'. init_state b = Inr s0 \<and> run L (e0 # es) s0 = Inr s' \<and>
           length (logs s') = 105 \<and>
           map r_phase (logs s') =
             replicate 40 ''pre'' @ replicate 25 ''train'' @ replicate 40 ''post'' \<and>
           map r_trial_in_phase (logs s') = map int ([0..<40] @ [0..<25] @ [0..<40]) \<and>
           phase s' = ''done'' \<and>
           gamble_id (current_gamble s') = r_gamble_id (last (logs s')) \<and>
           (\<forall>e. page L e s' = Inr s')"
proof -
  have "drop 65 es = drop 25 (drop 40 es)" by simp
  then have split: "take 40 es @ take 25 (drop 40 es) @ drop 65 es = es"
    by (simp only: append_take_drop_id)
  have len: "length (take 40 es) = 40" "length (take 25 (drop 40 es)) = 25"
    "length (drop 65 es) = 40"
    using assms(2) by simp_all
  have nostart: "\<forall>e\<in>set (take 40 es @ take 25 (drop 40 es) @ drop 65 es). button e \<noteq> Start"
    unfolding split using assms(3) by auto
  have tot: "phase_total_trials ''pre'' = int 40" "phase_total_trials ''train'' = int 25"
    "phase_total_trials ''post'' = int 40"
    by (simp_all add: phase_total_trials_simps)
  have pos: "(0::nat) < 40" "(0::nat) < 25" by simp_all
  obtain s0 where s0: "init_state b = Inr s0" "phase s0 = ''consent''" "logs s0 = []"
    using init_state_ok by blast
  obtain sa where sa: "page L e0 s0 = Inr sa" "phase sa = ''pre''" "trial_index sa = 0"
    "logs sa = []"
    using page_start [OF s0(2) assms(1), of L] s0(3) by auto
  from three_phases [OF tot pos(1) pos(2) pos(1) len nostart sa(2,3,4), of L]
  obtain sd where sd: "run L (take 40 es @ take 25 (drop 40 es) @ drop 65 es) sa = Inr sd"
    "map r_phase (logs sd) =
       replicate 40 ''pre'' @ replicate 25 ''train'' @ replicate 40 ''post''"
    "map r_trial_in_phase (logs sd) = map int ([0..<40] @ [0..<25] @ [0..<40])"
    "phase sd = ''done''"
    "gamble_id (current_gamble sd) = r_gamble_id (last (logs sd))"
    by blast
  have "run L es sa = Inr sd"
    using sd(1) by (simp only: split)
  then have run: "run L (e0 # es) s0 = Inr sd"
    using sa(1) by simp
  have "length (map r_phase (logs sd)) = 40 + 25 + 40"
    by (simp only: sd(2) length_append length_replicate)
  then have n: "length (logs sd) = 105" by simp
  have fin: "\<forall>e. page L e sd = Inr sd"
    using page_done [OF sd(4), of L] by blast
  from s0(1) run n sd(2,3,4,5) fin show ?thesis by blast
qed

text \<open>A session of 60 acceptances followed by 45 rejections.\<close>

theorem full_session_log_witness:
  "button (press Start) = Start \<and>
   length (replicate 60 (press Accept) @ replicate 45 (press Reject)) = 105 \<and>
   set (map button (replicate 60 (press Accept) @ replicate 45 (press Reject))) \<subseteq>
     {Accept, Reject} \<and>
   (\<exists>s0 s'. init_state boot0 = Inr s0 \<and>
      run lib0 (press Start # replicate 60 (press Accept) @ replicate 45 (press Reject)) s0 =
        Inr s' \<and>
      length (logs s') = 105 \<and>
      map r_phase (logs s') =
        replicate 40 ''pre'' @ replicate 25 ''train'' @ replicate 40 ''post'' \<and>
      phase s' = ''done'')"
proof -
  have h1: "button (press Start) = Start"
    by (simp add: press_def)
  have h2: "length (replicate 60 (press Accept) @ replicate 45 (press Reject)) = 105"
    by simp
  have h3: "\<forall>e\<in>set (replicate 60 (press Accept) @ replicate 45 (press Reject)).
      button e \<in> {Accept, Reject}"
    by (auto simp: press_def)
  have h4: "set (map button (replicate 60 (press Accept) @ replicate 45 (press Reject))) \<subseteq>
      {Accept, Reject}"
    by (auto simp: press_def)
  from full_session_log [OF h1 h2 h3, of boot0 lib0] h1 h2 h4
  show ?thesis by blast
qed

subsection \<open>ExperimentSession: the tier recorded in a row\<close>

lemma pre_phase_run:
  assumes "button e0 = Start" and "length es = 40" and "\<forall>e\<in>set es. button e \<noteq> Start"
  shows "\<exists>s0 s. init_state b = Inr s0 \<and> run L (e0 # es) s0 = Inr s \<and> phase s = ''train'' \<and>
           trial_index s = 0 \<and> difficulty s = 0 \<and> last_flags s = [] \<and>
           length (logs s) = 40"
proof -
  obtain s0 where s0: "init_state b = Inr s0" "phase s0 = ''consent''" "logs s0 = []"
    using init_state_ok by blast
  obtain sa where sa: "page L e0 s0 = Inr sa" "phase sa = ''pre''" "trial_index sa = 0"
    "logs sa = []"
    using page_start [OF s0(2) assms(1), of L] s0(3) by auto
  have ne: "es \<noteq> []" using assms(2) by auto
  have pa: "phase sa \<in> {''pre'', ''train'', ''post''}" "0 \<le> trial_index sa"
    "trial_index sa + int (length es) = phase_total_trials (phase sa)"
    using sa assms(2) by (simp_all add: phase_total_trials_simps)
  from run_phase [OF ne assms(3) pa, of L]
  obtain s where s: "run L es sa = Inr s" "map r_phase (logs s) = replicate (length es) ''pre''"
    "phase s = ''train''" "trial_index s = 0" "difficulty s = 0" "last_flags s = []"
    using sa by (auto simp: next_phase_def)
  have "length (map r_phase (logs s)) = length es"
    by (simp only: s(2) length_replicate)
  then have "length (logs s) = 40" using assms(2) by simp
  moreover have "run L (e0 # es) s0 = Inr s" using sa(1) s(1) by simp
  ultimately show ?thesis using s0(1) s by blast
qed

lemma flag_accept:
  "simple_loss_aversion_flag g ''accept'' \<noteq> ''loss_aversion_possible''"
  by (simp add: simple_loss_aversion_flag_def)

lemma adapt_first_flag:
  "f \<noteq> ''loss_aversion_possible'' \<Longrightarrow> adapt_difficulty 0 [f] = 1"
  by (simp add: adapt_difficulty_def)

lemma page_row:
  assumes "phase s \<in> {''pre'', ''train'', ''post''}" and "button e \<noteq> Start"
  shows "\<exists>s' new_row. page L e s = Inr s' \<and> logs s' = logs s @ [new_row] \<and>
     r_difficulty new_row =
       (if phase s = ''train'' then
          adapt_difficulty (difficulty s)
            (drop (length (last_flags s @
                [simple_loss_aversion_flag (current_gamble s)
                   (if button e = Accept then ''accept'' else ''reject'')]) - 10)
               (last_flags s @
                [simple_loss_aversion_flag (current_gamble s)
                   (if button e = Accept then ''accept'' else ''reject'')]))
        else difficulty s)"
  using handle_row [of L e "if button e = Accept then ''accept'' else ''reject''"
      "if phase s = ''train'' then s\<lparr>reflection := text_input e\<rparr> else s"]
    page_trial [OF assms, of L]
  by (auto simp: decided_fields)

lemma after_start:
  assumes "button e0 = Start"
  shows "\<exists>s0 s. init_state b = Inr s0 \<and> run L [e0] s0 = Inr s \<and> phase s = ''pre'' \<and>
           difficulty s = 0"
proof -
  obtain s0 where s0: "init_state b = Inr s0" "phase s0 = ''consent''"
    using init_state_ok by blast
  from page_start [OF s0(2) assms, of L] s0(1) show ?thesis by auto
qed

lemma adapt_difficulty_range:
  "0 \<le> c \<Longrightarrow> c \<le> 2 \<Longrightarrow> 0 \<le> adapt_difficulty c fl \<and> adapt_difficulty c fl \<le> 2"
  by (simp add: adapt_difficulty_def Let_def)

text \<open>
  Claim C7 says that the row of a trial records the tier under which the presented gamble
  was generated, not the tier produced by the adaptation that follows the decision. In the
  training phase \<open>handle\<close> adapts the difficulty before it calls \<open>log_decision\<close>, which
  reads the difficulty of the session. In the session below the 41st gamble (the first of the
  training phase) is drawn and presented at tier 0, and the row of its trial records tier 1.
\<close>

theorem logged_tier_counterexample:
  "tier_after (press Start # replicate 40 (press Accept)) = Some 0 \<and>
   length (logged_tiers (press Start # replicate 40 (press Accept) @ [press Accept])) = 41 \<and>
   last (logged_tiers (press Start # replicate 40 (press Accept) @ [press Accept])) = 1"
proof -
  have b0: "button (press Start) = Start" by (simp add: press_def)
  have l40: "length (replicate 40 (press Accept)) = 40" by simp
  have ns: "\<forall>e\<in>set (replicate 40 (press Accept)). button e \<noteq> Start"
    by (simp add: press_def)
  from pre_phase_run [OF b0 l40 ns, of boot0 lib0]
  obtain s0 s where s: "init_state boot0 = Inr s0"
    "run lib0 (press Start # replicate 40 (press Accept)) s0 = Inr s" "phase s = ''train''"
    "difficulty s = 0" "last_flags s = []" "length (logs s) = 40"
    by blast
  have acc: "button (press Accept) = Accept" "button (press Accept) \<noteq> Start"
    by (simp_all add: press_def)
  have ph: "phase s \<in> {''pre'', ''train'', ''post''}" using s(3) by simp
  from page_row [OF ph acc(2), of lib0]
  obtain s' new_row where s': "page lib0 (press Accept) s = Inr s'"
    "logs s' = logs s @ [new_row]"
    "r_difficulty new_row =
       adapt_difficulty 0 [simple_loss_aversion_flag (current_gamble s) ''accept'']"
    using s(3,4,5) acc(1) by auto
  have tier: "r_difficulty new_row = 1"
    using s'(3) adapt_first_flag [OF flag_accept] by simp
  have "run lib0 ((press Start # replicate 40 (press Accept)) @ [press Accept]) s0 =
      run lib0 [press Accept] s"
    by (simp only: run_append s(2) sum.case)
  then have run41:
    "run lib0 (press Start # replicate 40 (press Accept) @ [press Accept]) s0 = Inr s'"
    using s'(1) by (simp only: append_Cons run.simps sum.case)
  have sa40: "session_after (press Start # replicate 40 (press Accept)) = Inr s"
    by (simp only: session_after_def s(1) s(2) sum.case)
  have sa41: "session_after (press Start # replicate 40 (press Accept) @ [press Accept]) = Inr s'"
    by (simp only: session_after_def s(1) run41 sum.case)
  have a: "tier_after (press Start # replicate 40 (press Accept)) = Some 0"
    by (simp only: tier_after_def sa40 sum.case s(4))
  have b: "logged_tiers (press Start # replicate 40 (press Accept) @ [press Accept]) =
      map r_difficulty (logs s) @ [1]"
    by (simp only: logged_tiers_def sa41 sum.case s'(2) map_append list.map tier)
  show ?thesis
    using a s(6) by (simp only: b length_append length_map list.size last_snoc) simp
qed


text \<open>
  Claim C7 as amended. For every completed trial the appended row records the difficulty
  tier of the session when the row is appended: outside the training phase this is the tier
  in effect at the decision, under which the presented gamble was generated; in the training
  phase it is the tier produced by the adaptation that the decision triggers, computed from
  the tier in effect and the window of the last ten flags including the new one.
\<close>

theorem log_row_difficulty:
  "\<exists>s' new_row. handle L e d s = Inr s' \<and> logs s' = logs s @ [new_row] \<and>
     (phase s \<noteq> ''train'' \<longrightarrow> r_difficulty new_row = difficulty s) \<and>
     (phase s = ''train'' \<longrightarrow>
        r_difficulty new_row =
          adapt_difficulty (difficulty s)
            (drop (length (last_flags s @ [simple_loss_aversion_flag (current_gamble s) d]) - 10)
               (last_flags s @ [simple_loss_aversion_flag (current_gamble s) d])))"
  using handle_row [of L e d s] by (auto simp: decided_fields)

text \<open>
  The first pre-test trial, whose row records the tier 0 in effect, and the first training
  trial, whose row records the adapted tier 1.
\<close>

theorem log_row_difficulty_witness:
  "(\<exists>s s' new_row. session_after [press Start] = Inr s \<and> phase s \<noteq> ''train'' \<and>
      difficulty s = 0 \<and> handle lib0 (press Reject) ''reject'' s = Inr s' \<and>
      logs s' = logs s @ [new_row] \<and> r_difficulty new_row = 0) \<and>
   (\<exists>s s' new_row. session_after (press Start # replicate 40 (press Accept)) = Inr s \<and>
      phase s = ''train'' \<and> difficulty s = 0 \<and>
      handle lib0 (press Accept) ''accept'' s = Inr s' \<and>
      logs s' = logs s @ [new_row] \<and> r_difficulty new_row = 1)"
proof
  have b0: "button (press Start) = Start" by (simp add: press_def)
  from after_start [OF b0, of boot0 lib0]
  obtain s0 s where s: "init_state boot0 = Inr s0" "run lib0 [press Start] s0 = Inr s"
    "phase s = ''pre''" "difficulty s = 0"
    by blast
  have sa: "session_after [press Start] = Inr s"
    by (simp only: session_after_def s(1) s(2) sum.case)
  from log_row_difficulty [of lib0 "press Reject" "''reject''" s] s(3,4)
  obtain s' new_row where "handle lib0 (press Reject) ''reject'' s = Inr s'"
    "logs s' = logs s @ [new_row]" "r_difficulty new_row = 0"
    by auto
  with sa s(3,4)
  show "\<exists>s s' new_row. session_after [press Start] = Inr s \<and> phase s \<noteq> ''train'' \<and>
      difficulty s = 0 \<and> handle lib0 (press Reject) ''reject'' s = Inr s' \<and>
      logs s' = logs s @ [new_row] \<and> r_difficulty new_row = 0"
    by auto
next
  have b0: "button (press Start) = Start" by (simp add: press_def)
  have l40: "length (replicate 40 (press Accept)) = 40" by simp
  have ns: "\<forall>e\<in>set (replicate 40 (press Accept)). button e \<noteq> Start"
    by (simp add: press_def)
  from pre_phase_run [OF b0 l40 ns, of boot0 lib0]
  obtain s0 s where s: "init_state boot0 = Inr s0"
    "run lib0 (press Start # replicate 40 (press Accept)) s0 = Inr s" "phase s = ''train''"
    "difficulty s = 0" "last_flags s = []"
    by blast
  have sa: "session_after (press Start # replicate 40 (press Accept)) = Inr s"
    by (simp only: session_after_def s(1) s(2) sum.case)
  from log_row_difficulty [of lib0 "press Accept" "''accept''" s] s(3,4,5)
  obtain s' new_row where s': "handle lib0 (press Accept) ''accept'' s = Inr s'"
    "logs s' = logs s @ [new_row]"
    "r_difficulty new_row =
       adapt_difficulty 0 [simple_loss_aversion_flag (current_gamble s) ''accept'']"
    by auto
  have "r_difficulty new_row = 1"
    using s'(3) adapt_first_flag [OF flag_accept] by simp
  with sa s(3,4) s'(1,2)
  show "\<exists>s s' new_row. session_after (press Start # replicate 40 (press Accept)) = Inr s \<and>
      phase s = ''train'' \<and> difficulty s = 0 \<and>
      handle lib0 (press Accept) ''accept'' s = Inr s' \<and>
      logs s' = logs s @ [new_row] \<and> r_difficulty new_row = 1"
    by blast
qed

subsection \<open>ExperimentSession: facts about the difficulty tier\<close>

lemma page_facts:
  assumes "page L e s = Inr s'"
  shows "(phase s' \<noteq> phase s \<longrightarrow>
            trial_index s' = 0 \<and> difficulty s' = 0 \<and> last_flags s' = [] \<and>
            (phase s' \<noteq> ''done'' \<longrightarrow>
               sample_mixed_gamble 0 (Random L (rng_seed s' + 0)) (uuid4 e) =
                 Inr (current_gamble s'))) \<and>
         (phase s' = phase s \<longrightarrow>
            difficulty s' = difficulty s \<or>
            phase s = ''train'' \<and> (\<exists>fl. difficulty s' = adapt_difficulty (difficulty s) fl))"
proof (cases "phase s = ''consent''")
  case consent: True
  show ?thesis
  proof (cases "button e = Start")
    case True
    from page_start [OF consent True, of L] assms consent
    show ?thesis by auto
  next
    case False
    with consent assms show ?thesis by (simp add: page_def)
  qed
next
  case False
  show ?thesis
  proof (cases "phase s \<in> {''pre'', ''train'', ''post''}")
    case outside: False
    with False assms have "s' = s" by (simp add: page_def)
    then show ?thesis by simp
  next
    case trial: True
    show ?thesis
    proof (cases "button e = Start")
      case True
      with trial False assms
      have "s' = (if phase s = ''train'' then s\<lparr>reflection := text_input e\<rparr> else s)"
        by (auto simp: page_def)
      then show ?thesis by simp
    next
      case nostart: False
      define d where "d = (if button e = Accept then ''accept'' else ''reject'')"
      define s1 where "s1 = (if phase s = ''train'' then s\<lparr>reflection := text_input e\<rparr> else s)"
      have pg: "handle L e d s1 = Inr s'"
        using page_trial [OF trial nostart, of L] assms by (simp add: d_def s1_def)
      have s1: "phase s1 = phase s" "trial_index s1 = trial_index s"
        "difficulty s1 = difficulty s" "rng_seed s1 = rng_seed s"
        by (simp_all add: s1_def)
      have dd: "difficulty (decided L e d s1) = difficulty s \<or>
          phase s = ''train'' \<and>
          (\<exists>fl. difficulty (decided L e d s1) = adapt_difficulty (difficulty s) fl)"
        by (auto simp: decided_fields s1)
      show ?thesis
      proof (cases "trial_index s + 1 < phase_total_trials (phase s)")
        case True
        from handle_within [of s1 L e d] trial True s1 pg dd
        show ?thesis by auto
      next
        case last: False
        show ?thesis
        proof (cases "phase s = ''post''")
          case True
          from handle_finish [of s1 L e d] last True s1 pg
          show ?thesis by auto
        next
          case False
          with trial have early: "phase s1 \<in> {''pre'', ''train''}" by (simp add: s1)
          from handle_boundary [OF early, of L e d] last s1 pg early
          show ?thesis by (auto simp: next_phase_def)
        qed
      qed
    qed
  qed
qed

lemma page_tier:
  assumes "0 \<le> difficulty s" "difficulty s \<le> 2" "phase s \<noteq> ''train'' \<longrightarrow> difficulty s = 0"
    and "page L e s = Inr s'"
  shows "0 \<le> difficulty s' \<and> difficulty s' \<le> 2 \<and>
         (phase s' \<noteq> ''train'' \<longrightarrow> difficulty s' = 0) \<and>
         (phase s \<noteq> ''train'' \<longrightarrow> difficulty s' = difficulty s)"
proof (cases "phase s' = phase s")
  case True
  with page_facts [OF assms(4)] assms(1,2,3) adapt_difficulty_range [OF assms(1,2)]
  show ?thesis by auto
next
  case False
  with page_facts [OF assms(4)] assms(3)
  show ?thesis by auto
qed

lemma run_tier:
  assumes "run L es s = Inr s'"
    and "0 \<le> difficulty s" "difficulty s \<le> 2" "phase s \<noteq> ''train'' \<longrightarrow> difficulty s = 0"
  shows "0 \<le> difficulty s' \<and> difficulty s' \<le> 2 \<and> (phase s' \<noteq> ''train'' \<longrightarrow> difficulty s' = 0)"
  using assms
proof (induction es arbitrary: s)
  case Nil
  then show ?case by simp
next
  case (Cons e es)
  from Cons.prems(1) obtain s1 where s1: "page L e s = Inr s1" "run L es s1 = Inr s'"
    by (auto split: sum.splits)
  from page_tier [OF Cons.prems(2,3,4) s1(1)]
  have "0 \<le> difficulty s1" "difficulty s1 \<le> 2" "phase s1 \<noteq> ''train'' \<longrightarrow> difficulty s1 = 0"
    by simp_all
  from Cons.IH [OF s1(2) this] show ?case .
qed

subsection \<open>Inputs outside the documented domains\<close>

text \<open>
  Claim C6 says that a difficulty tier outside \<open>[0, 2]\<close> passed to the generator or to the
  adapter, and a decision label other than \<open>accept\<close> and \<open>reject\<close>, raise a validation
  error. The source has no such check: tiers 5 and -1 yield gambles of tiers 2 and 0, the
  adapter maps the tiers 5, -4 and 7 to 2, 4, -3 and 7, and the label \<open>maybe\<close> is
  classified as \<open>none\<close>.
\<close>

theorem no_validation_counterexample:
  "sample_mixed_gamble 5 (\<lambda>k. 7 + k) ''3f2b8c1e-aaaa'' =
     Inr \<lparr>p_win = 1 / 2, win = 30, p_lose = 1 / 2, lose = 14, gamble_id = ''3f2b8c1e''\<rparr> \<and>
   sample_mixed_gamble (- 1) (\<lambda>k. 7 + k) ''3f2b8c1e-aaaa'' =
     Inr \<lparr>p_win = 1 / 2, win = 8, p_lose = 1 / 2, lose = 10, gamble_id = ''3f2b8c1e''\<rparr> \<and>
   adapt_difficulty 5 [''none''] = 2 \<and>
   adapt_difficulty 5 [''loss_aversion_possible''] = 4 \<and>
   adapt_difficulty (- 4) [''none''] = - 3 \<and>
   adapt_difficulty 7 [] = 7 \<and>
   simple_loss_aversion_flag
     \<lparr>p_win = 1 / 2, win = 20, p_lose = 1 / 2, lose = 10, gamble_id = ''0a1b2c3d''\<rparr>
     ''maybe'' = ''none''"
  by (simp add: sample_mixed_gamble_def candidates_def choice_def Let_def
      adapt_difficulty_def simple_loss_aversion_flag_def)

text \<open>
  Claim C6 as amended. No input is validated and no error is raised: for a tier below 0
  the generator returns what it returns for tier 0, for a tier above 2 what it returns for
  tier 2; the adapter applies its rule to the tier as given, returning it unchanged, or
  lowered by one but not below 0, or raised by one but not above 2; a decision label other
  than \<open>accept\<close> and \<open>reject\<close> is classified as \<open>none\<close>, and \<open>handle\<close> processes the
  trial and logs a row with that label.
\<close>

theorem no_validation:
  "(d < 0 \<or> 2 < d \<longrightarrow>
      (\<exists>g. sample_mixed_gamble d r u = Inr g) \<and>
      sample_mixed_gamble d r u = sample_mixed_gamble (if d < 0 then 0 else 2) r u) \<and>
   (tier < 0 \<or> 2 < tier \<longrightarrow>
      adapt_difficulty tier flags \<in> {tier, max 0 (tier - 1), min 2 (tier + 1)}) \<and>
   (decision \<notin> {''accept'', ''reject''} \<longrightarrow>
      simple_loss_aversion_flag g decision = ''none'' \<and>
      (\<exists>s' new_row. handle L e decision s = Inr s' \<and> logs s' = logs s @ [new_row] \<and>
         r_decision new_row = decision \<and> r_flag new_row = ''none''))"
proof -
  have c: "d < 0 \<or> 2 < d \<Longrightarrow> candidates d = candidates (if d < 0 then 0 else 2)"
    by (auto simp: candidates_def)
  have gen: "d < 0 \<or> 2 < d \<longrightarrow>
      (\<exists>g. sample_mixed_gamble d r u = Inr g) \<and>
      sample_mixed_gamble d r u = sample_mixed_gamble (if d < 0 then 0 else 2) r u"
    using sample_obtain [of d r u] c by (auto simp: sample_mixed_gamble_def)
  have ad: "adapt_difficulty tier flags \<in> {tier, max 0 (tier - 1), min 2 (tier + 1)}"
    by (simp add: adapt_difficulty_def Let_def)
  have fl: "decision \<notin> {''accept'', ''reject''} \<Longrightarrow>
      simple_loss_aversion_flag g' decision = ''none''" for g'
    by (simp add: simple_loss_aversion_flag_def)
  from handle_row [of L e decision s]
  obtain s' new_row where h: "handle L e decision s = Inr s'" "logs s' = logs s @ [new_row]"
    "r_decision new_row = decision"
    "r_flag new_row = simple_loss_aversion_flag (current_gamble s) decision"
    by blast
  have "decision \<notin> {''accept'', ''reject''} \<longrightarrow>
      (\<exists>s' new_row. handle L e decision s = Inr s' \<and> logs s' = logs s @ [new_row] \<and>
         r_decision new_row = decision \<and> r_flag new_row = ''none'')"
    using h fl [of "current_gamble s"] by auto
  with gen ad fl [of g] show ?thesis by blast
qed

text \<open>Tier 5 and the label \<open>maybe\<close>, the latter in the first pre-test trial.\<close>

theorem no_validation_witness:
  "(2::int) < 5 \<and>
   sample_mixed_gamble 5 (\<lambda>k. 7 + k) ''3f2b8c1e-aaaa'' =
     sample_mixed_gamble 2 (\<lambda>k. 7 + k) ''3f2b8c1e-aaaa'' \<and>
   adapt_difficulty 5 [''none''] \<in> {5, max 0 (5 - 1), min 2 (5 + 1)} \<and>
   ''maybe'' \<notin> {''accept'', ''reject''} \<and>
   (\<exists>s s' new_row. session_after [press Start] = Inr s \<and>
      handle lib0 (press Accept) ''maybe'' s = Inr s' \<and> logs s' = logs s @ [new_row] \<and>
      r_decision new_row = ''maybe'' \<and> r_flag new_row = ''none'')"
proof -
  have b0: "button (press Start) = Start" by (simp add: press_def)
  from after_start [OF b0, of boot0 lib0]
  obtain s0 s where s: "init_state boot0 = Inr s0" "run lib0 [press Start] s0 = Inr s"
    by blast
  have sa: "session_after [press Start] = Inr s"
    by (simp only: session_after_def s(1) s(2) sum.case)
  have h: "(2::int) < 5" "''maybe'' \<notin> {''accept'', ''reject''}" by simp_all
  from no_validation [of 5 "\<lambda>k. 7 + k" "''3f2b8c1e-aaaa''" 5 "[''none'']" "''maybe''"
      "current_gamble s" lib0 "press Accept" s] h sa
  show ?thesis by auto
qed

subsection \<open>ExperimentSession: replaying a trial\<close>

lemma page_gamble:
  assumes "page L e s = Inr s'"
    and "phase s \<in> {''pre'', ''train'', ''post''} \<longrightarrow>
      (\<exists>u. sample_mixed_gamble (difficulty s) (Random L (rng_seed s + trial_index s)) u =
         Inr (current_gamble s))"
  shows "rng_seed s' = rng_seed s \<and>
    (phase s' \<in> {''pre'', ''train'', ''post''} \<longrightarrow>
      (\<exists>u. sample_mixed_gamble (difficulty s') (Random L (rng_seed s' + trial_index s')) u =
         Inr (current_gamble s')))"
proof (cases "phase s = ''consent''")
  case consent: True
  show ?thesis
  proof (cases "button e = Start")
    case True
    from page_start [OF consent True, of L] assms(1)
    show ?thesis by auto
  next
    case False
    with consent assms(1) have "s' = s" by (simp add: page_def)
    with consent show ?thesis by simp
  qed
next
  case False
  show ?thesis
  proof (cases "phase s \<in> {''pre'', ''train'', ''post''}")
    case outside: False
    with False assms(1) have "s' = s" by (simp add: page_def)
    with outside show ?thesis by simp
  next
    case trial: True
    show ?thesis
    proof (cases "button e = Start")
      case True
      with trial False assms(1)
      have "s' = (if phase s = ''train'' then s\<lparr>reflection := text_input e\<rparr> else s)"
        by (auto simp: page_def)
      with assms(2) trial show ?thesis by auto
    next
      case nostart: False
      define d where "d = (if button e = Accept then ''accept'' else ''reject'')"
      define s1 where "s1 = (if phase s = ''train'' then s\<lparr>reflection := text_input e\<rparr> else s)"
      have pg: "handle L e d s1 = Inr s'"
        using page_trial [OF trial nostart, of L] assms(1) by (simp add: d_def s1_def)
      have s1: "phase s1 = phase s" "trial_index s1 = trial_index s"
        "rng_seed s1 = rng_seed s"
        by (simp_all add: s1_def)
      show ?thesis
      proof (cases "trial_index s + 1 < phase_total_trials (phase s)")
        case True
        from handle_within [of s1 L e d] trial True s1 pg
        show ?thesis by auto
      next
        case last: False
        show ?thesis
        proof (cases "phase s = ''post''")
          case True
          from handle_finish [of s1 L e d] last True s1 pg
          show ?thesis by auto
        next
          case False
          with trial have early: "phase s1 \<in> {''pre'', ''train''}" by (simp add: s1)
          from handle_boundary [OF early, of L e d] last s1 pg
          show ?thesis by auto
        qed
      qed
    qed
  qed
qed

lemma run_gamble:
  assumes "run L es s = Inr s'"
    and "phase s \<in> {''pre'', ''train'', ''post''} \<longrightarrow>
      (\<exists>u. sample_mixed_gamble (difficulty s) (Random L (rng_seed s + trial_index s)) u =
         Inr (current_gamble s))"
  shows "rng_seed s' = rng_seed s \<and>
    (phase s' \<in> {''pre'', ''train'', ''post''} \<longrightarrow>
      (\<exists>u. sample_mixed_gamble (difficulty s') (Random L (rng_seed s' + trial_index s')) u =
         Inr (current_gamble s')))"
  using assms
proof (induction es arbitrary: s)
  case Nil
  then show ?case by simp
next
  case (Cons e es)
  from Cons.prems(1) obtain s1 where s1: "page L e s = Inr s1" "run L es s1 = Inr s'"
    by (auto split: sum.splits)
  from page_gamble [OF s1(1) Cons.prems(2)]
  have g1: "rng_seed s1 = rng_seed s"
    "phase s1 \<in> {''pre'', ''train'', ''post''} \<longrightarrow>
      (\<exists>u. sample_mixed_gamble (difficulty s1) (Random L (rng_seed s1 + trial_index s1)) u =
         Inr (current_gamble s1))"
    by blast+
  from Cons.IH [OF s1(2) g1(2)] g1(1) show ?case by auto
qed

lemma sample_amounts:
  assumes "sample_mixed_gamble d r u1 = Inr g1" and "sample_mixed_gamble d r u2 = Inr g2"
  shows "p_win g1 = p_win g2 \<and> win g1 = win g2 \<and> p_lose g1 = p_lose g2 \<and> lose g1 = lose g2"
  using assms
  by (auto simp: sample_mixed_gamble_def Let_def split: prod.splits sum.splits)

lemma init_state_seed:
  assumes "0 \<le> b_time_seed b"
  shows "\<exists>s0. init_state b = Inr s0 \<and> phase s0 = ''consent'' \<and>
           rng_seed s0 = \<lfloor>b_time_seed b\<rfloor>"
proof -
  obtain g where "sample_mixed_gamble 0 (b_rng b) (b_uuid4 b) = Inr g"
    using sample_obtain by blast
  then show ?thesis using assms by (simp add: init_state_def)
qed

lemma page_within:
  assumes "phase s \<in> {''pre'', ''train'', ''post''}" and "button e \<noteq> Start"
    and "trial_index s + 1 < phase_total_trials (phase s)"
  shows "\<exists>s'. page L e s = Inr s' \<and> phase s' = phase s \<and>
     trial_index s' = trial_index s + 1 \<and> rng_seed s' = rng_seed s \<and>
     difficulty s' =
       (if phase s = ''train'' then
          adapt_difficulty (difficulty s)
            (drop (length (last_flags s @
                [simple_loss_aversion_flag (current_gamble s)
                   (if button e = Accept then ''accept'' else ''reject'')]) - 10)
               (last_flags s @
                [simple_loss_aversion_flag (current_gamble s)
                   (if button e = Accept then ''accept'' else ''reject'')]))
        else difficulty s) \<and>
     sample_mixed_gamble (difficulty s') (Random L (rng_seed s + (trial_index s + 1)))
       (uuid4 e) = Inr (current_gamble s')"
proof -
  define d where "d = (if button e = Accept then ''accept'' else ''reject'')"
  define s1 where "s1 = (if phase s = ''train'' then s\<lparr>reflection := text_input e\<rparr> else s)"
  have pg: "page L e s = handle L e d s1"
    using page_trial [OF assms(1,2), of L] by (simp add: d_def s1_def)
  have s1: "phase s1 = phase s" "trial_index s1 = trial_index s"
    "rng_seed s1 = rng_seed s" "difficulty s1 = difficulty s" "last_flags s1 = last_flags s"
    "current_gamble s1 = current_gamble s"
    by (simp_all add: s1_def)
  from handle_within [of s1 L e d] assms(1,3) s1 pg
  show ?thesis by (auto simp: decided_fields d_def)
qed

lemma seeded_draws:
  "sample_mixed_gamble 0 (Random lib0 1700000000) u =
     Inr \<lparr>p_win = 1 / 2, win = 10, p_lose = 1 / 2, lose = 6, gamble_id = take 8 u\<rparr>"
  "sample_mixed_gamble 0 (Random lib0 1700000001) u =
     Inr \<lparr>p_win = 1 / 2, win = 12, p_lose = 1 / 2, lose = 8, gamble_id = take 8 u\<rparr>"
  "sample_mixed_gamble 1 (Random lib0 1700000001) u =
     Inr \<lparr>p_win = 1 / 2, win = 10, p_lose = 1 / 2, lose = 16, gamble_id = take 8 u\<rparr>"
  by (simp_all add: sample_mixed_gamble_def candidates_def choice_def lib0_def Let_def)

lemma first_gamble:
  assumes "button e = Start"
  shows "\<exists>s0 t. init_state boot0 = Inr s0 \<and> run lib0 [e] s0 = Inr t \<and> phase t = ''pre'' \<and>
     rng_seed t = 1700000000 \<and> trial_index t = 0 \<and> difficulty t = 0 \<and>
     current_gamble t =
       \<lparr>p_win = 1 / 2, win = 10, p_lose = 1 / 2, lose = 6, gamble_id = take 8 (uuid4 e)\<rparr>"
proof -
  have "0 \<le> b_time_seed boot0" "\<lfloor>b_time_seed boot0\<rfloor> = 1700000000"
    by (simp_all add: boot0_def)
  with init_state_seed [of boot0]
  obtain s0 where s0: "init_state boot0 = Inr s0" "phase s0 = ''consent''"
    "rng_seed s0 = 1700000000"
    by auto
  from page_start [OF s0(2) assms, of lib0] s0(3)
  obtain t where t: "page lib0 e s0 = Inr t" "phase t = ''pre''" "trial_index t = 0"
    "difficulty t = 0" "rng_seed t = 1700000000"
    "sample_mixed_gamble 0 (Random lib0 (1700000000 + 0)) (uuid4 e) = Inr (current_gamble t)"
    by auto
  from t(6) have "current_gamble t =
      \<lparr>p_win = 1 / 2, win = 10, p_lose = 1 / 2, lose = 6, gamble_id = take 8 (uuid4 e)\<rparr>"
    by (simp add: seeded_draws)
  with s0(1) t show ?thesis by simp
qed


lemma second_training_gamble:
  assumes "button e \<noteq> Start"
  shows "\<exists>s0 t. init_state boot0 = Inr s0 \<and>
     run lib0 (press Start # replicate 40 (press Accept) @ [e]) s0 = Inr t \<and>
     phase t = ''train'' \<and> rng_seed t = 1700000000 \<and> trial_index t = 1 \<and>
     difficulty t = (if button e = Accept then 1 else 0) \<and>
     current_gamble t =
       (if button e = Accept
        then \<lparr>p_win = 1 / 2, win = 10, p_lose = 1 / 2, lose = 16,
               gamble_id = take 8 (uuid4 e)\<rparr>
        else \<lparr>p_win = 1 / 2, win = 12, p_lose = 1 / 2, lose = 8,
               gamble_id = take 8 (uuid4 e)\<rparr>)"
proof -
  have b0: "button (press Start) = Start" by (simp add: press_def)
  have l40: "length (replicate 40 (press Accept)) = 40" by simp
  have ns: "\<forall>x\<in>set (replicate 40 (press Accept)). button x \<noteq> Start"
    by (simp add: press_def)
  from pre_phase_run [OF b0 l40 ns, of boot0 lib0]
  obtain s0 s where s: "init_state boot0 = Inr s0"
    "run lib0 (press Start # replicate 40 (press Accept)) s0 = Inr s" "phase s = ''train''"
    "trial_index s = 0" "difficulty s = 0" "last_flags s = []"
    by blast
  have "0 \<le> b_time_seed boot0" "\<lfloor>b_time_seed boot0\<rfloor> = 1700000000"
    by (simp_all add: boot0_def)
  with init_state_seed [of boot0] s(1)
  have s0: "phase s0 = ''consent''" "rng_seed s0 = 1700000000"
    by auto
  from run_gamble [OF s(2)] s0 s(3,4,5)
  obtain u where seed: "rng_seed s = 1700000000"
    and "sample_mixed_gamble 0 (Random lib0 (1700000000 + 0)) u = Inr (current_gamble s)"
    by auto
  then have g: "current_gamble s =
      \<lparr>p_win = 1 / 2, win = 10, p_lose = 1 / 2, lose = 6, gamble_id = take 8 u\<rparr>"
    by (simp add: seeded_draws)
  have ph: "phase s \<in> {''pre'', ''train'', ''post''}"
    "trial_index s + 1 < phase_total_trials (phase s)"
    using s(3,4) by (simp_all add: phase_total_trials_simps)
  from page_within [OF ph(1) assms ph(2), of lib0] s(3,4,5,6) seed
  obtain t where t: "page lib0 e s = Inr t" "phase t = ''train''" "trial_index t = 1"
    "rng_seed t = 1700000000"
    "difficulty t =
       adapt_difficulty 0
         [simple_loss_aversion_flag (current_gamble s)
            (if button e = Accept then ''accept'' else ''reject'')]"
    "sample_mixed_gamble (difficulty t) (Random lib0 (1700000000 + (0 + 1))) (uuid4 e) =
       Inr (current_gamble t)"
    by auto
  have tier: "difficulty t = (if button e = Accept then 1 else 0)"
    by (simp add: t(5) g simple_loss_aversion_flag_def ev_def adapt_difficulty_def)
  have gt: "current_gamble t =
       (if button e = Accept
        then \<lparr>p_win = 1 / 2, win = 10, p_lose = 1 / 2, lose = 16,
               gamble_id = take 8 (uuid4 e)\<rparr>
        else \<lparr>p_win = 1 / 2, win = 12, p_lose = 1 / 2, lose = 8,
               gamble_id = take 8 (uuid4 e)\<rparr>)"
  proof (cases "button e = Accept")
    case True
    with t(6) tier show ?thesis by (simp add: seeded_draws)
  next
    case False
    with t(6) tier show ?thesis by (simp add: seeded_draws)
  qed
  have "run lib0 ((press Start # replicate 40 (press Accept)) @ [e]) s0 = run lib0 [e] s"
    by (simp only: run_append s(2) sum.case)
  then have "run lib0 (press Start # replicate 40 (press Accept) @ [e]) s0 = Inr t"
    using t(1) by (simp only: append_Cons run.simps sum.case)
  with s(1) t(2,3,4) tier gt show ?thesis by blast
qed

text \<open>
  Claim C5 says that for a fixed seed, phase and trial index two replays of a trial produce
  the same gamble, identifier included. The identifier is cut from \<open>uuid.uuid4()\<close>, which
  the seeded generator does not feed: two runs of the first pre-test trial with the seed
  1700000000 carry different identifiers. The amounts depend on the difficulty tier as
  well: with the same seed, the second training trial is drawn at tier 1 after an
  acceptance and at tier 0 after a rejection of the first, and the win amounts are 10 and 12.
\<close>

theorem replay_counterexample:
  "trial_after [press Start] = Some (1700000000, ''pre'', 0) \<and>
   trial_after [replay Start] = Some (1700000000, ''pre'', 0) \<and>
   map_option gamble_id (gamble_after [press Start]) = Some ''0f1e2d3c'' \<and>
   map_option gamble_id (gamble_after [replay Start]) = Some ''c4d5e6f7'' \<and>
   trial_after (press Start # replicate 40 (press Accept) @ [press Accept]) =
     Some (1700000000, ''train'', 1) \<and>
   trial_after (press Start # replicate 40 (press Accept) @ [press Reject]) =
     Some (1700000000, ''train'', 1) \<and>
   map_option win (gamble_after (press Start # replicate 40 (press Accept) @ [press Accept])) =
     Some 10 \<and>
   map_option win (gamble_after (press Start # replicate 40 (press Accept) @ [press Reject])) =
     Some 12"
proof -
  have b: "button (press Start) = Start" "button (replay Start) = Start"
    "button (press Accept) \<noteq> Start" "button (press Reject) \<noteq> Start"
    "button (press Accept) = Accept" "button (press Reject) \<noteq> Accept"
    by (simp_all add: press_def replay_def)
  have u: "take 8 (uuid4 (press Start)) = ''0f1e2d3c''"
    "take 8 (uuid4 (replay Start)) = ''c4d5e6f7''"
    by (simp_all add: press_def replay_def)
  from first_gamble [OF b(1)]
  have 1: "trial_after [press Start] = Some (1700000000, ''pre'', 0)"
    "map_option gamble_id (gamble_after [press Start]) = Some ''0f1e2d3c''"
    by (auto simp: trial_after_def gamble_after_def session_after_def u
        simp del: run.simps)
  from first_gamble [OF b(2)]
  have 2: "trial_after [replay Start] = Some (1700000000, ''pre'', 0)"
    "map_option gamble_id (gamble_after [replay Start]) = Some ''c4d5e6f7''"
    by (auto simp: trial_after_def gamble_after_def session_after_def u
        simp del: run.simps)
  from second_training_gamble [OF b(3)] b(5)
  have 3: "trial_after (press Start # replicate 40 (press Accept) @ [press Accept]) =
      Some (1700000000, ''train'', 1)"
    "map_option win (gamble_after (press Start # replicate 40 (press Accept) @ [press Accept])) =
      Some 10"
    by (auto simp: trial_after_def gamble_after_def session_after_def
        simp del: run.simps)
  from second_training_gamble [OF b(4)] b(6)
  have 4: "trial_after (press Start # replicate 40 (press Accept) @ [press Reject]) =
      Some (1700000000, ''train'', 1)"
    "map_option win (gamble_after (press Start # replicate 40 (press Accept) @ [press Reject])) =
      Some 12"
    by (auto simp: trial_after_def gamble_after_def session_after_def
        simp del: run.simps)
  from 1 2 3 4 show ?thesis by blast
qed

text \<open>
  Claim C5 as amended. The generator of a trial is \<open>Random(rng_seed + trial_index)\<close>, a
  function of the seed of the session and the trial index. In two sessions, each reached
  from a fresh one by any presses, that are in a trial phase with the same seed, the same
  trial index and the same difficulty tier, the pending gambles have the same probabilities,
  the same win amount and the same loss amount. The identifier is not part of the
  statement: it comes from \<open>uuid4\<close>.
\<close>

theorem replay_same_amounts:
  assumes "init_state b1 = Inr a1" and "run L es1 a1 = Inr t1"
    and "init_state b2 = Inr a2" and "run L es2 a2 = Inr t2"
    and "phase t1 \<in> {''pre'', ''train'', ''post''}"
    and "phase t2 \<in> {''pre'', ''train'', ''post''}"
    and "rng_seed t1 = rng_seed t2" and "trial_index t1 = trial_index t2"
    and "difficulty t1 = difficulty t2"
  shows "p_win (current_gamble t1) = p_win (current_gamble t2) \<and>
         win (current_gamble t1) = win (current_gamble t2) \<and>
         p_lose (current_gamble t1) = p_lose (current_gamble t2) \<and>
         lose (current_gamble t1) = lose (current_gamble t2)"
proof -
  have c1: "phase a1 = ''consent''" "phase a2 = ''consent''"
    using assms(1,3) by (auto simp: init_state_def split: sum.splits)
  from run_gamble [OF assms(2)] c1(1) assms(5)
  obtain u1 where u1: "sample_mixed_gamble (difficulty t1)
      (Random L (rng_seed t1 + trial_index t1)) u1 = Inr (current_gamble t1)"
    by auto
  from run_gamble [OF assms(4)] c1(2) assms(6)
  obtain u2 where u2: "sample_mixed_gamble (difficulty t2)
      (Random L (rng_seed t2 + trial_index t2)) u2 = Inr (current_gamble t2)"
    by auto
  from sample_amounts [OF u1] u2 assms(7,8,9) show ?thesis by simp
qed


text \<open>The first pre-test trial and its replay with another \<open>uuid4\<close>.\<close>

theorem replay_same_amounts_witness:
  "\<exists>a t1 t2. init_state boot0 = Inr a \<and> run lib0 [press Start] a = Inr t1 \<and>
      run lib0 [replay Start] a = Inr t2 \<and> phase t1 = ''pre'' \<and> phase t2 = ''pre'' \<and>
      rng_seed t1 = rng_seed t2 \<and> trial_index t1 = trial_index t2 \<and>
      difficulty t1 = difficulty t2 \<and>
      p_win (current_gamble t1) = p_win (current_gamble t2) \<and>
      win (current_gamble t1) = win (current_gamble t2) \<and>
      p_lose (current_gamble t1) = p_lose (current_gamble t2) \<and>
      lose (current_gamble t1) = lose (current_gamble t2)"
proof -
  have b: "button (press Start) = Start" "button (replay Start) = Start"
    by (simp_all add: press_def replay_def)
  from first_gamble [OF b(1)]
  obtain a t1 where t1: "init_state boot0 = Inr a" "run lib0 [press Start] a = Inr t1"
    "phase t1 = ''pre''" "rng_seed t1 = 1700000000" "trial_index t1 = 0" "difficulty t1 = 0"
    by blast
  from first_gamble [OF b(2)] t1(1)
  obtain t2 where t2: "run lib0 [replay Start] a = Inr t2"
    "phase t2 = ''pre''" "rng_seed t2 = 1700000000" "trial_index t2 = 0" "difficulty t2 = 0"
    by auto
  have h: "phase t1 \<in> {''pre'', ''train'', ''post''}" "phase t2 \<in> {''pre'', ''train'', ''post''}"
    "rng_seed t1 = rng_seed t2" "trial_index t1 = trial_index t2"
    "difficulty t1 = difficulty t2"
    using t1 t2 by simp_all
  from replay_same_amounts [OF t1(1) t1(2) t1(1) t2(1) h] t1 t2 h
  show ?thesis by blast
qed

subsection \<open>ExperimentSession: the difficulty tier and the phase boundaries\<close>

lemma page_total: "\<exists>s'. page L e s = Inr s'"
proof (cases "phase s = ''consent''")
  case consent: True
  show ?thesis
  proof (cases "button e = Start")
    case True
    from page_start [OF consent True, of L] show ?thesis by blast
  next
    case False
    with consent show ?thesis by (simp add: page_def)
  qed
next
  case False
  show ?thesis
  proof (cases "phase s \<in> {''pre'', ''train'', ''post''}")
    case outside: False
    with False show ?thesis by (simp add: page_def)
  next
    case trial: True
    show ?thesis
    proof (cases "button e = Start")
      case True
      with trial False show ?thesis by (auto simp: page_def)
    next
      case nostart: False
      from page_step [OF trial nostart, of L] show ?thesis by blast
    qed
  qed
qed

lemma decided_last_flags:
  "last_flags (decided L e d s) =
     (if phase s = ''train'' then
        drop (length (last_flags s @ [simple_loss_aversion_flag (current_gamble s) d]) - 10)
          (last_flags s @ [simple_loss_aversion_flag (current_gamble s) d])
      else last_flags s)"
  by (simp add: decided_def log_decision_def Let_def)

lemma adapt_no_flag:
  assumes "fl \<noteq> []" and "''loss_aversion_possible'' \<notin> set fl"
  shows "adapt_difficulty c fl = min 2 (c + 1)"
proof -
  from assms(2) have "filter (\<lambda>f. f = ''loss_aversion_possible'') fl = []"
    by (auto simp: filter_empty_conv)
  with assms(1) show ?thesis by (simp add: adapt_difficulty_def)
qed

lemma train_accept_step:
  assumes "phase s = ''train''" and "button e = Accept"
    and "trial_index s + 1 < phase_total_trials (phase s)"
    and "''loss_aversion_possible'' \<notin> set (last_flags s)"
  shows "\<exists>s'. page L e s = Inr s' \<and> phase s' = ''train'' \<and>
     trial_index s' = trial_index s + 1 \<and> difficulty s' = min 2 (difficulty s + 1) \<and>
     last_flags s' \<noteq> [] \<and> ''loss_aversion_possible'' \<notin> set (last_flags s')"
proof -
  define f where "f = simple_loss_aversion_flag (current_gamble s) ''accept''"
  define w where "w = drop (length (last_flags s @ [f]) - 10) (last_flags s @ [f])"
  have f: "f \<noteq> ''loss_aversion_possible''"
    unfolding f_def by (rule flag_accept)
  have "set w \<subseteq> set (last_flags s @ [f])"
    unfolding w_def by (rule set_drop_subset)
  with f assms(4) have w1: "''loss_aversion_possible'' \<notin> set w" by auto
  have "length w = min 10 (Suc (length (last_flags s)))"
    unfolding w_def by auto
  then have w2: "w \<noteq> []" by auto
  define s1 where "s1 = s\<lparr>reflection := text_input e\<rparr>"
  have trial: "phase s \<in> {''pre'', ''train'', ''post''}" "button e \<noteq> Start"
    using assms(1,2) by simp_all
  have pg: "page L e s = handle L e ''accept'' s1"
    using page_trial [OF trial, of L] assms(1,2) by (simp add: s1_def)
  have s1: "phase s1 = ''train''" "trial_index s1 = trial_index s"
    "difficulty s1 = difficulty s" "last_flags s1 = last_flags s"
    "current_gamble s1 = current_gamble s"
    using assms(1) by (simp_all add: s1_def)
  have p1: "phase s1 \<in> {''pre'', ''train'', ''post''}"
    "trial_index s1 + 1 < phase_total_trials (phase s1)"
    using assms(1,3) s1 by simp_all
  from handle_within [OF p1, of L e "''accept''"]
  obtain s' where s': "handle L e ''accept'' s1 = Inr s'" "phase s' = phase s1"
    "trial_index s' = trial_index s1 + 1"
    "difficulty s' = difficulty (decided L e ''accept'' s1)"
    "last_flags s' = last_flags (decided L e ''accept'' s1)"
    by blast
  have lf: "last_flags s' = w"
    by (simp add: s'(5) decided_last_flags s1 w_def f_def)
  have "difficulty s' = adapt_difficulty (difficulty s) w"
    by (simp add: s'(4) decided_fields s1 w_def f_def)
  then have "difficulty s' = min 2 (difficulty s + 1)"
    by (simp only: adapt_no_flag [OF w2 w1])
  with pg s' s1 lf w1 w2 show ?thesis by simp
qed

lemma run_train_accepts:
  assumes "\<forall>e\<in>set es. button e = Accept" and "phase s = ''train''"
    and "trial_index s + int (length es) < phase_total_trials (phase s)"
    and "''loss_aversion_possible'' \<notin> set (last_flags s)"
    and "difficulty s \<le> 2"
  shows "\<exists>s'. run L es s = Inr s' \<and> phase s' = ''train'' \<and>
     trial_index s' = trial_index s + int (length es) \<and>
     difficulty s' = min 2 (difficulty s + int (length es)) \<and>
     (es \<noteq> [] \<longrightarrow> last_flags s' \<noteq> []) \<and>
     ''loss_aversion_possible'' \<notin> set (last_flags s')"
  using assms
proof (induction es arbitrary: s)
  case Nil
  then show ?case by simp
next
  case (Cons e es)
  have step: "trial_index s + 1 < phase_total_trials (phase s)" "button e = Accept"
    using Cons.prems(1,3) by simp_all
  from train_accept_step [OF Cons.prems(2) step(2) step(1) Cons.prems(4), of L]
  obtain s1 where s1: "page L e s = Inr s1" "phase s1 = ''train''"
    "trial_index s1 = trial_index s + 1" "difficulty s1 = min 2 (difficulty s + 1)"
    "last_flags s1 \<noteq> []" "''loss_aversion_possible'' \<notin> set (last_flags s1)"
    by blast
  have p: "\<forall>x\<in>set es. button x = Accept"
    "trial_index s1 + int (length es) < phase_total_trials (phase s1)"
    using Cons.prems(1,2,3) s1(2,3) by simp_all
  have le: "difficulty s1 \<le> 2" using s1(4) by simp
  from Cons.IH [OF p(1) s1(2) p(2) s1(6) le]
  obtain s' where s': "run L es s1 = Inr s'" "phase s' = ''train''"
    "trial_index s' = trial_index s1 + int (length es)"
    "difficulty s' = min 2 (difficulty s1 + int (length es))"
    "es \<noteq> [] \<longrightarrow> last_flags s' \<noteq> []"
    "''loss_aversion_possible'' \<notin> set (last_flags s')"
    by blast
  have "es = [] \<longrightarrow> s' = s1" using s'(1) by auto
  with s1(5) s'(5) have ne: "last_flags s' \<noteq> []" by auto
  have "difficulty s' = min 2 (difficulty s + int (length (e # es)))"
    using s'(4) s1(4) by auto
  with s1(1,3) s' ne show ?case by simp
qed

lemma end_of_training:
  "\<exists>a s. init_state boot0 = Inr a \<and>
     run lib0 (press Start # replicate 40 (press Accept) @ replicate 24 (press Accept)) a =
       Inr s \<and>
     phase s = ''train'' \<and> trial_index s = 24 \<and> difficulty s = 2 \<and> last_flags s \<noteq> [] \<and>
     rng_seed s = 1700000000"
proof -
  have b0: "button (press Start) = Start" by (simp add: press_def)
  have l40: "length (replicate 40 (press Accept)) = 40" by simp
  have ns: "\<forall>x\<in>set (replicate 40 (press Accept)). button x \<noteq> Start"
    by (simp add: press_def)
  from pre_phase_run [OF b0 l40 ns, of boot0 lib0]
  obtain a s40 where s40: "init_state boot0 = Inr a"
    "run lib0 (press Start # replicate 40 (press Accept)) a = Inr s40" "phase s40 = ''train''"
    "trial_index s40 = 0" "difficulty s40 = 0" "last_flags s40 = []"
    by blast
  have acc: "\<forall>x\<in>set (replicate 24 (press Accept)). button x = Accept"
    by (simp add: press_def)
  have l24: "length (replicate 24 (press Accept)) = 24" by simp
  have p: "trial_index s40 + int (length (replicate 24 (press Accept))) <
      phase_total_trials (phase s40)"
    "''loss_aversion_possible'' \<notin> set (last_flags s40)" "difficulty s40 \<le> 2"
    by (simp_all add: s40 phase_total_trials_simps)
  have ne: "replicate 24 (press Accept) \<noteq> []"
    using l24 by auto
  from run_train_accepts [OF acc s40(3) p, of lib0] ne
  obtain s where s: "run lib0 (replicate 24 (press Accept)) s40 = Inr s" "phase s = ''train''"
    "trial_index s = trial_index s40 + int (length (replicate 24 (press Accept)))"
    "difficulty s = min 2 (difficulty s40 + int (length (replicate 24 (press Accept))))"
    "last_flags s \<noteq> []"
    by blast
  have idx: "trial_index s = 24" "difficulty s = 2"
    by (simp_all add: s(3,4) s40(4,5))
  have "run lib0 ((press Start # replicate 40 (press Accept)) @ replicate 24 (press Accept)) a =
      run lib0 (replicate 24 (press Accept)) s40"
    by (simp only: run_append s40(2) sum.case)
  then have run: "run lib0
      (press Start # replicate 40 (press Accept) @ replicate 24 (press Accept)) a = Inr s"
    by (simp only: append_Cons s(1))
  have "0 \<le> b_time_seed boot0" "\<lfloor>b_time_seed boot0\<rfloor> = 1700000000"
    by (simp_all add: boot0_def)
  with init_state_seed [of boot0] s40(1)
  have a: "phase a = ''consent''" "rng_seed a = 1700000000"
    by auto
  from run_gamble [OF run] a have "rng_seed s = 1700000000" by auto
  with s40(1) run s(2,5) idx show ?thesis by blast
qed

text \<open>
  Claim C8. In every session reached from a fresh one, every press is handled without an
  error and the difficulty tier lies in \<open>[0, 2]\<close>. The tier changes in the training phase
  only: outside that phase it is 0 and a press leaves it as it is, while a decision inside
  the training phase replaces it by the result of \<open>adapt_difficulty\<close> on the window of the
  last ten flags. A decision in the last trial of a phase (the trial index plus one reaches
  the count of the phase) moves the session to the next phase, and \<open>Start\<close> moves it from
  the consent page to the pre-test; whenever the phase changes, the trial index and the
  tier are 0 and the flag history is empty afterwards, and the first gamble of the new phase
  (if the session is not finished) is drawn at tier 0 from the generator of trial index 0,
  that is after the reset. A decision before the last trial of a phase keeps the phase and
  advances the trial index by one.
\<close>

theorem difficulty_tier_invariant:
  assumes "init_state b = Inr s0" and "run L es s0 = Inr s"
  shows "\<exists>s'. page L e s = Inr s' \<and>
     0 \<le> difficulty s \<and> difficulty s \<le> 2 \<and>
     (phase s \<noteq> ''train'' \<longrightarrow> difficulty s = 0 \<and> difficulty s' = difficulty s) \<and>
     (phase s' \<noteq> phase s \<longrightarrow>
        trial_index s' = 0 \<and> difficulty s' = 0 \<and> last_flags s' = [] \<and>
        (phase s' \<noteq> ''done'' \<longrightarrow>
           sample_mixed_gamble 0 (Random L (rng_seed s' + 0)) (uuid4 e) =
             Inr (current_gamble s'))) \<and>
     (phase s = ''consent'' \<and> button e = Start \<longrightarrow> phase s' = ''pre'') \<and>
     (phase s \<in> {''pre'', ''train'', ''post''} \<and> button e \<noteq> Start \<and>
      phase_total_trials (phase s) \<le> trial_index s + 1 \<longrightarrow>
        phase s' = next_phase (phase s) \<and> phase s' \<noteq> phase s) \<and>
     (phase s \<in> {''pre'', ''train'', ''post''} \<and> button e \<noteq> Start \<and>
      trial_index s + 1 < phase_total_trials (phase s) \<longrightarrow>
        phase s' = phase s \<and> trial_index s' = trial_index s + 1 \<and>
        difficulty s' =
          (if phase s = ''train'' then
             adapt_difficulty (difficulty s)
               (drop (length (last_flags s @
                   [simple_loss_aversion_flag (current_gamble s)
                      (if button e = Accept then ''accept'' else ''reject'')]) - 10)
                  (last_flags s @
                   [simple_loss_aversion_flag (current_gamble s)
                      (if button e = Accept then ''accept'' else ''reject'')]))
           else difficulty s))"
proof -
  from assms(1) have "difficulty s0 = 0"
    by (auto simp: init_state_def split: sum.splits)
  then have "0 \<le> difficulty s0" "difficulty s0 \<le> 2" "phase s0 \<noteq> ''train'' \<longrightarrow> difficulty s0 = 0"
    by simp_all
  from run_tier [OF assms(2) this]
  have inv: "0 \<le> difficulty s" "difficulty s \<le> 2" "phase s \<noteq> ''train'' \<longrightarrow> difficulty s = 0"
    by simp_all
  obtain s' where s': "page L e s = Inr s'"
    using page_total by blast
  have a: "phase s \<noteq> ''train'' \<longrightarrow> difficulty s = 0 \<and> difficulty s' = difficulty s"
    using page_tier [OF inv s'] inv by blast
  have b: "phase s' \<noteq> phase s \<longrightarrow>
        trial_index s' = 0 \<and> difficulty s' = 0 \<and> last_flags s' = [] \<and>
        (phase s' \<noteq> ''done'' \<longrightarrow>
           sample_mixed_gamble 0 (Random L (rng_seed s' + 0)) (uuid4 e) =
             Inr (current_gamble s'))"
    using page_facts [OF s'] by blast
  have c: "phase s = ''consent'' \<and> button e = Start \<longrightarrow> phase s' = ''pre''"
  proof
    assume h: "phase s = ''consent'' \<and> button e = Start"
    then have "phase s = ''consent''" "button e = Start" by simp_all
    from page_start [OF this, of L] s' show "phase s' = ''pre''" by auto
  qed
  have d: "phase s \<in> {''pre'', ''train'', ''post''} \<and> button e \<noteq> Start \<and>
      phase_total_trials (phase s) \<le> trial_index s + 1 \<longrightarrow>
        phase s' = next_phase (phase s) \<and> phase s' \<noteq> phase s"
  proof
    assume h: "phase s \<in> {''pre'', ''train'', ''post''} \<and> button e \<noteq> Start \<and>
      phase_total_trials (phase s) \<le> trial_index s + 1"
    then have t: "phase s \<in> {''pre'', ''train'', ''post''}" "button e \<noteq> Start"
      and l: "\<not> trial_index s + 1 < phase_total_trials (phase s)"
      by simp_all
    from page_step [OF t, of L] l s' have "phase s' = next_phase (phase s)" by auto
    moreover from t(1) have "next_phase (phase s) \<noteq> phase s"
      by (auto simp: next_phase_def)
    ultimately show "phase s' = next_phase (phase s) \<and> phase s' \<noteq> phase s" by simp
  qed
  have w: "phase s \<in> {''pre'', ''train'', ''post''} \<and> button e \<noteq> Start \<and>
      trial_index s + 1 < phase_total_trials (phase s) \<longrightarrow>
        phase s' = phase s \<and> trial_index s' = trial_index s + 1 \<and>
        difficulty s' =
          (if phase s = ''train'' then
             adapt_difficulty (difficulty s)
               (drop (length (last_flags s @
                   [simple_loss_aversion_flag (current_gamble s)
                      (if button e = Accept then ''accept'' else ''reject'')]) - 10)
                  (last_flags s @
                   [simple_loss_aversion_flag (current_gamble s)
                      (if button e = Accept then ''accept'' else ''reject'')]))
           else difficulty s)"
  proof
    assume h: "phase s \<in> {''pre'', ''train'', ''post''} \<and> button e \<noteq> Start \<and>
      trial_index s + 1 < phase_total_trials (phase s)"
    then have t: "phase s \<in> {''pre'', ''train'', ''post''}" "button e \<noteq> Start"
      "trial_index s + 1 < phase_total_trials (phase s)"
      by simp_all
    from page_within [OF t, of L] s'
    show "phase s' = phase s \<and> trial_index s' = trial_index s + 1 \<and>
        difficulty s' =
          (if phase s = ''train'' then
             adapt_difficulty (difficulty s)
               (drop (length (last_flags s @
                   [simple_loss_aversion_flag (current_gamble s)
                      (if button e = Accept then ''accept'' else ''reject'')]) - 10)
                  (last_flags s @
                   [simple_loss_aversion_flag (current_gamble s)
                      (if button e = Accept then ''accept'' else ''reject'')]))
           else difficulty s)"
      by auto
  qed
  from s' inv(1,2) a b c d w show ?thesis by blast
qed


text \<open>
  Three presses: \<open>Start\<close> on a fresh session; a rejection in the last training trial, where
  the session has trial index 24, tier 2 and a non-empty flag history, and afterwards is in
  the post-test with index 0, tier 0, an empty history and a gamble of tier 0; and an
  acceptance in the first training trial, which raises the tier from 0 to 1.
\<close>

theorem difficulty_tier_invariant_witness:
  "(\<exists>a s'. init_state boot0 = Inr a \<and> run lib0 [] a = Inr a \<and>
      page lib0 (press Start) a = Inr s' \<and> phase a = ''consent'' \<and> phase s' = ''pre'' \<and>
      difficulty a = 0 \<and> trial_index s' = 0 \<and> difficulty s' = 0 \<and> last_flags s' = []) \<and>
   (\<exists>a s s'. init_state boot0 = Inr a \<and>
      run lib0 (press Start # replicate 40 (press Accept) @ replicate 24 (press Accept)) a =
        Inr s \<and>
      phase s = ''train'' \<and> trial_index s = 24 \<and> difficulty s = 2 \<and> last_flags s \<noteq> [] \<and>
      page lib0 (press Reject) s = Inr s' \<and>
      phase s' = ''post'' \<and> trial_index s' = 0 \<and> difficulty s' = 0 \<and> last_flags s' = [] \<and>
      current_gamble s' =
        \<lparr>p_win = 1 / 2, win = 10, p_lose = 1 / 2, lose = 6, gamble_id = ''0f1e2d3c''\<rparr>) \<and>
   (\<exists>a s s'. init_state boot0 = Inr a \<and>
      run lib0 (press Start # replicate 40 (press Accept)) a = Inr s \<and>
      phase s = ''train'' \<and> trial_index s = 0 \<and> difficulty s = 0 \<and>
      page lib0 (press Accept) s = Inr s' \<and>
      phase s' = ''train'' \<and> trial_index s' = 1 \<and> difficulty s' = 1)"
proof (intro conjI)
  obtain a where a: "init_state boot0 = Inr a" "phase a = ''consent''"
    using init_state_ok by blast
  have r: "run lib0 [] a = Inr a" by simp
  have b0: "button (press Start) = Start" by (simp add: press_def)
  from difficulty_tier_invariant [OF a(1) r, of "press Start"]
  obtain s' where s': "page lib0 (press Start) a = Inr s'"
    "phase a \<noteq> ''train'' \<longrightarrow> difficulty a = 0 \<and> difficulty s' = difficulty a"
    "phase s' \<noteq> phase a \<longrightarrow> trial_index s' = 0 \<and> difficulty s' = 0 \<and> last_flags s' = []"
    "phase a = ''consent'' \<and> button (press Start) = Start \<longrightarrow> phase s' = ''pre''"
    by blast
  from s'(4) a(2) b0 have ph: "phase s' = ''pre''" by simp
  with s'(2,3) a(2)
  have "difficulty a = 0" "trial_index s' = 0" "difficulty s' = 0" "last_flags s' = []"
    by simp_all
  with a r s'(1) ph
  show "\<exists>a s'. init_state boot0 = Inr a \<and> run lib0 [] a = Inr a \<and>
      page lib0 (press Start) a = Inr s' \<and> phase a = ''consent'' \<and> phase s' = ''pre'' \<and>
      difficulty a = 0 \<and> trial_index s' = 0 \<and> difficulty s' = 0 \<and> last_flags s' = []"
    by blast
next
  from end_of_training
  obtain a s where s: "init_state boot0 = Inr a"
    "run lib0 (press Start # replicate 40 (press Accept) @ replicate 24 (press Accept)) a =
       Inr s"
    "phase s = ''train''" "trial_index s = 24" "difficulty s = 2" "last_flags s \<noteq> []"
    "rng_seed s = 1700000000"
    by blast
  have rej: "button (press Reject) \<noteq> Start" "take 8 (uuid4 (press Reject)) = ''0f1e2d3c''"
    by (simp_all add: press_def)
  have bound: "phase s \<in> {''pre'', ''train'', ''post''} \<and> button (press Reject) \<noteq> Start \<and>
      phase_total_trials (phase s) \<le> trial_index s + 1"
    using s(3,4) rej(1) by (simp add: phase_total_trials_simps)
  from difficulty_tier_invariant [OF s(1,2), of "press Reject"] bound
  obtain s' where s': "page lib0 (press Reject) s = Inr s'"
    "phase s' = next_phase (phase s)" "phase s' \<noteq> phase s"
    "phase s' \<noteq> phase s \<longrightarrow>
        trial_index s' = 0 \<and> difficulty s' = 0 \<and> last_flags s' = [] \<and>
        (phase s' \<noteq> ''done'' \<longrightarrow>
           sample_mixed_gamble 0 (Random lib0 (rng_seed s' + 0)) (uuid4 (press Reject)) =
             Inr (current_gamble s'))"
    by blast
  have ph: "phase s' = ''post''"
    using s'(2) s(3) by (simp add: next_phase_def)
  from s'(3,4) ph
  have reset: "trial_index s' = 0" "difficulty s' = 0" "last_flags s' = []"
    "sample_mixed_gamble 0 (Random lib0 (rng_seed s' + 0)) (uuid4 (press Reject)) =
       Inr (current_gamble s')"
    by simp_all
  have "phase s \<in> {''pre'', ''train'', ''post''} \<longrightarrow>
      (\<exists>u. sample_mixed_gamble (difficulty s) (Random lib0 (rng_seed s + trial_index s)) u =
         Inr (current_gamble s))"
  proof -
    have "0 \<le> b_time_seed boot0" by (simp add: boot0_def)
    with init_state_seed [of boot0] s(1) have "phase a = ''consent''" by auto
    with run_gamble [OF s(2)] show ?thesis by auto
  qed
  from page_gamble [OF s'(1) this] s(7) have "rng_seed s' = 1700000000" by simp
  with reset(4) have "current_gamble s' =
      \<lparr>p_win = 1 / 2, win = 10, p_lose = 1 / 2, lose = 6, gamble_id = ''0f1e2d3c''\<rparr>"
    by (simp add: seeded_draws rej(2))
  with s(1,2,3,4,5,6) s'(1) ph reset(1,2,3)
  show "\<exists>a s s'. init_state boot0 = Inr a \<and>
      run lib0 (press Start # replicate 40 (press Accept) @ replicate 24 (press Accept)) a =
        Inr s \<and>
      phase s = ''train'' \<and> trial_index s = 24 \<and> difficulty s = 2 \<and> last_flags s \<noteq> [] \<and>
      page lib0 (press Reject) s = Inr s' \<and>
      phase s' = ''post'' \<and> trial_index s' = 0 \<and> difficulty s' = 0 \<and> last_flags s' = [] \<and>
      current_gamble s' =
        \<lparr>p_win = 1 / 2, win = 10, p_lose = 1 / 2, lose = 6, gamble_id = ''0f1e2d3c''\<rparr>"
    by blast
next
  have b0: "button (press Start) = Start" by (simp add: press_def)
  have l40: "length (replicate 40 (press Accept)) = 40" by simp
  have ns: "\<forall>x\<in>set (replicate 40 (press Accept)). button x \<noteq> Start"
    by (simp add: press_def)
  from pre_phase_run [OF b0 l40 ns, of boot0 lib0]
  obtain a s where s: "init_state boot0 = Inr a"
    "run lib0 (press Start # replicate 40 (press Accept)) a = Inr s" "phase s = ''train''"
    "trial_index s = 0" "difficulty s = 0" "last_flags s = []"
    by blast
  have acc: "button (press Accept) = Accept" "button (press Accept) \<noteq> Start"
    by (simp_all add: press_def)
  have inside: "phase s \<in> {''pre'', ''train'', ''post''} \<and> button (press Accept) \<noteq> Start \<and>
      trial_index s + 1 < phase_total_trials (phase s)"
    using s(3,4) acc(2) by (simp add: phase_total_trials_simps)
  from difficulty_tier_invariant [OF s(1,2), of "press Accept"] inside
  obtain s' where s': "page lib0 (press Accept) s = Inr s'" "phase s' = phase s"
    "trial_index s' = trial_index s + 1"
    "difficulty s' =
       (if phase s = ''train'' then
          adapt_difficulty (difficulty s)
            (drop (length (last_flags s @
                [simple_loss_aversion_flag (current_gamble s)
                   (if button (press Accept) = Accept then ''accept'' else ''reject'')]) - 10)
               (last_flags s @
                [simple_loss_aversion_flag (current_gamble s)
                   (if button (press Accept) = Accept then ''accept'' else ''reject'')]))
        else difficulty s)"
    by blast
  have "difficulty s' =
      adapt_difficulty 0 [simple_loss_aversion_flag (current_gamble s) ''accept'']"
    using s'(4) s(3,5,6) acc(1) by simp
  then have "difficulty s' = 1"
    using adapt_first_flag [OF flag_accept] by simp
  with s s'(1,2,3)
  show "\<exists>a s s'. init_state boot0 = Inr a \<and>
      run lib0 (press Start # replicate 40 (press Accept)) a = Inr s \<and>
      phase s = ''train'' \<and> trial_index s = 0 \<and> difficulty s = 0 \<and>
      page lib0 (press Accept) s = Inr s' \<and>
      phase s' = ''train'' \<and> trial_index s' = 1 \<and> difficulty s' = 1"
    by auto
qed

end
